theory Spec2Isabelle
  imports Complex_Main "HOL-Library.Sublist"
begin

section \<open>Strings as the source uses them\<close>

text \<open>
  A JavaScript string is modelled as a \<open>char list\<close>. Every string operation the source
  uses (splitting and joining on the newline, matching the ASCII literals of the region
  markers, the classes \<open>[^\n]\<close> and \<open>[\s\S]\<close>) looks at one code unit at a time and
  only compares it with ASCII characters, so the model does not depend on how a
  character beyond ASCII is encoded. The model has well-formed strings only: a string
  with a lone surrogate, which is written to a file with U+FFFD in its place and so is
  not read back as it was written, is left out.
\<close>

abbreviation nl :: char where
  "nl \<equiv> CHR 0x0A"

text \<open>\<open>String.prototype.split(sep)\<close> for a separator of one character: the result is
  never empty; the empty string splits into one empty piece.\<close>

fun split_on :: "char \<Rightarrow> string \<Rightarrow> string list" where
  "split_on d [] = [[]]"
| "split_on d (c # cs) =
     (if c = d then [] # split_on d cs
      else (case split_on d cs of [] \<Rightarrow> [[c]] | l # ls \<Rightarrow> (c # l) # ls))"

abbreviation split_nl :: "string \<Rightarrow> string list" where
  "split_nl \<equiv> split_on nl"

text \<open>\<open>Array.prototype.join(sep)\<close>.\<close>

fun join :: "string \<Rightarrow> string list \<Rightarrow> string" where
  "join sep [] = []"
| "join sep [x] = x"
| "join sep (x # y # ys) = x @ sep @ join sep (y # ys)"

abbreviation join_nl :: "string list \<Rightarrow> string" where
  "join_nl \<equiv> join [nl]"

text \<open>\<open>Array.prototype.splice(start, 0, ...items)\<close> for \<open>0 \<le> start\<close>: a start beyond the
  end is clamped to the length, which is what \<open>take\<close> and \<open>drop\<close> do.\<close>

definition splice_in :: "'a list \<Rightarrow> nat \<Rightarrow> 'a list \<Rightarrow> 'a list" where
  "splice_in xs start items = take start xs @ items @ drop start xs"

text \<open>Template interpolation of an integral JavaScript number.\<close>

definition digit_char :: "nat \<Rightarrow> char" where
  "digit_char d = ''0123456789'' ! d"

fun digits :: "nat \<Rightarrow> string" where
  "digits n =
     (if n < 10 then [digit_char n]
      else digits (n div 10) @ [digit_char (n mod 10)])"

declare digits.simps [simp del]

definition show_int :: "int \<Rightarrow> string" where
  "show_int i = (if i < 0 then CHR ''-'' # digits (nat (- i)) else digits (nat i))"

section \<open>The region patterns\<close>

text \<open>
  The source removes regions with regular expressions of one shape,
  \<^verbatim>\<open>S[^\n]*\n[\s\S]*?E[^\n]*\n?\<close> with the flag \<open>g\<close>, where \<open>S\<close> is a start marker and
  \<open>E\<close> an end marker. The functions below give the meaning of the pattern when \<open>S\<close> and
  \<open>E\<close> are matched as literal text. The fixed parts of the markers hold no syntax
  character of regular expressions; the region identifier, which the source puts into
  \<open>S\<close> as it is, may hold one, and \<open>removeRegion\<close> below uses these functions only when it
  does not.

  A backtracking match of this shape at a given position is determined: after \<open>S\<close>, the
  greedy \<open>[^\n]*\<close> followed by \<open>\n\<close> can only stop at the first newline; the lazy
  \<open>[\s\S]*?\<close> stops at the first occurrence of \<open>E\<close> after it (what follows \<open>E\<close> cannot
  fail); the greedy \<open>[^\n]*\n?\<close> takes the rest of that line and its newline, if any.
\<close>

text \<open>\<open>[^\n]*\n\<close>: the text after the first newline, if there is one.\<close>

fun after_nl :: "string \<Rightarrow> string option" where
  "after_nl [] = None"
| "after_nl (c # cs) = (if c = nl then Some cs else after_nl cs)"

text \<open>\<open>[\s\S]*?E\<close>: the text after the first occurrence of \<open>E\<close>.\<close>

fun after_first :: "string \<Rightarrow> string \<Rightarrow> string option" where
  "after_first E [] = (if E = [] then Some [] else None)"
| "after_first E (c # cs) =
     (if prefix E (c # cs) then Some (drop (length E) (c # cs)) else after_first E cs)"

text \<open>\<open>[^\n]*\n?\<close>: the text after the rest of the line and its newline.\<close>

fun rest_of_line :: "string \<Rightarrow> string" where
  "rest_of_line [] = []"
| "rest_of_line (c # cs) = (if c = nl then cs else rest_of_line cs)"

text \<open>A match of the pattern at the very start of the text: the text left after it.\<close>

definition match_at :: "string \<Rightarrow> string \<Rightarrow> string \<Rightarrow> string option" where
  "match_at S E s =
     (if prefix S s then
        (case after_nl (drop (length S) s) of
           None \<Rightarrow> None
         | Some r \<Rightarrow>
            (case after_first E r of
               None \<Rightarrow> None
             | Some r' \<Rightarrow> Some (rest_of_line r')))
      else None)"

lemma after_nl_length: "after_nl s = Some r \<Longrightarrow> length r < length s"
  by (induction s) (auto split: if_splits)

lemma after_first_length: "after_first E s = Some r \<Longrightarrow> length r \<le> length s"
  by (induction s) (auto split: if_splits)

lemma rest_of_line_length: "length (rest_of_line s) \<le> length s"
  by (induction s) auto

lemma match_at_length:
  assumes "match_at S E s = Some r"
  shows "length r < length s"
proof -
  from assms obtain r1 r2 where
    a: "after_nl (drop (length S) s) = Some r1" and
    b: "after_first E r1 = Some r2" and
    c: "r = rest_of_line r2"
    by (auto simp: match_at_def split: if_splits option.splits)
  have "length r1 < length (drop (length S) s)" using a by (rule after_nl_length)
  moreover have "length r2 \<le> length r1" using b by (rule after_first_length)
  moreover have "length r \<le> length r2" using c by (simp add: rest_of_line_length)
  ultimately show ?thesis by simp
qed

text \<open>\<open>content.replace(pattern, '')\<close> with a global pattern: the text is scanned from the
  left, every match is deleted and the scan goes on after it (a match is never empty).\<close>

function replace_all :: "string \<Rightarrow> string \<Rightarrow> string \<Rightarrow> string" where
  "replace_all S E s =
     (case match_at S E s of
        Some r \<Rightarrow> replace_all S E r
      | None \<Rightarrow> (case s of [] \<Rightarrow> [] | c # cs \<Rightarrow> c # replace_all S E cs))"
  by pat_completeness auto
termination
  by (relation "measure (\<lambda>(S, E, s). length s)") (auto dest: match_at_length)

declare replace_all.simps [simp del]

text \<open>\<open>content.match(pattern)\<close> with a global pattern returns all matches, found by the
  same scan; the source only takes the length of that array (\<open>null\<close> counting as none).\<close>

function count_matches :: "string \<Rightarrow> string \<Rightarrow> string \<Rightarrow> nat" where
  "count_matches S E s =
     (case match_at S E s of
        Some r \<Rightarrow> Suc (count_matches S E r)
      | None \<Rightarrow> (case s of [] \<Rightarrow> 0 | c # cs \<Rightarrow> count_matches S E cs))"
  by pat_completeness auto
termination
  by (relation "measure (\<lambda>(S, E, s). length s)") (auto dest: match_at_length)

declare count_matches.simps [simp del]

text \<open>Every occurrence of \<open>S\<close> in the text begins a line; the flag says whether the text
  itself starts at the beginning of a line.\<close>

fun starts_lines :: "string \<Rightarrow> bool \<Rightarrow> string \<Rightarrow> bool" where
  "starts_lines S b [] = True"
| "starts_lines S b (c # cs) = ((b \<or> \<not> prefix S (c # cs)) \<and> starts_lines S (c = nl) cs)"

text \<open>The text holds no newline that is followed, anywhere later, by \<open>E\<close>.\<close>

definition no_end :: "string \<Rightarrow> string \<Rightarrow> bool" where
  "no_end E x = (case after_nl x of None \<Rightarrow> True | Some r \<Rightarrow> after_first E r = None)"

section \<open>Data model (types.ts)\<close>

datatype language = javascript | typescript | python

record instrument =
  inst_id :: string
  inst_file :: string
  line :: int
  language :: language
  capture :: "string list"
  createdAt :: int

section \<open>The file system\<close>

text \<open>
  The files the program touches. The program reads every file as text, with
  \<open>readFileSync(path, 'utf-8')\<close>, and writes strings, which are stored in their UTF-8
  encoding. A file is described by

    \<^item> \<open>content\<close>: the text that reading the file as UTF-8 gives;

    \<^item> \<open>utf8\<close>: whether the bytes of the file are the UTF-8 encoding of that text. They
      are not when the file holds bytes that are not valid UTF-8: the decoder puts
      U+FFFD in the place of such bytes, so that the file of the byte \<open>E9\<close> reads as
      the text whose encoding is \<open>EF BF BD\<close>;

    \<^item> \<open>writable\<close>: whether the file may be written.

  After \<open>writeFileSync\<close> the bytes of the file are the encoding of the string written,
  whatever they were before. So two descriptions that agree on \<open>content\<close> and have
  \<open>utf8\<close> describe the same bytes, and a file that held bytes that are not valid UTF-8
  differs, once it is written, from what it was, even when the text written is the text
  read. \<open>appendFileSync\<close> puts the encoding of the string after the bytes of the file;
  the encoding of a string does not begin in the middle of a character, so the text read
  afterwards is the text read before followed by the string.

  Writing to a read-only file throws, as \<open>writeFileSync\<close> does with \<open>EACCES\<close>; writing to
  a path that does not exist creates the file, and \<open>unlinkSync\<close> deletes a file: the
  directories are taken to exist and to allow both.
\<close>

record file_entry =
  content :: string
  utf8 :: bool
  writable :: bool

type_synonym fs = "string \<rightharpoonup> file_entry"

datatype error = Error string | FsError string

definition existsSync :: "fs \<Rightarrow> string \<Rightarrow> bool" where
  "existsSync fs p = (fs p \<noteq> None)"

definition readFileSync :: "fs \<Rightarrow> string \<Rightarrow> error + string" where
  "readFileSync fs p =
     (case fs p of
        None \<Rightarrow>
          Inl (FsError (''ENOENT: no such file or directory, open '' @ [CHR 0x27] @ p
                        @ [CHR 0x27]))
      | Some f \<Rightarrow> Inr (content f))"

definition writeFileSync :: "fs \<Rightarrow> string \<Rightarrow> string \<Rightarrow> error + fs" where
  "writeFileSync fs p c =
     (case fs p of
        None \<Rightarrow> Inr (fs(p \<mapsto> \<lparr>content = c, utf8 = True, writable = True\<rparr>))
      | Some f \<Rightarrow>
          if writable f then Inr (fs(p \<mapsto> f\<lparr>content := c, utf8 := True\<rparr>))
          else Inl (FsError (''EACCES: permission denied, open '' @ [CHR 0x27] @ p
                             @ [CHR 0x27])))"

definition appendFileSync :: "fs \<Rightarrow> string \<Rightarrow> string \<Rightarrow> error + fs" where
  "appendFileSync fs p c =
     (case fs p of
        None \<Rightarrow> Inr (fs(p \<mapsto> \<lparr>content = c, utf8 = True, writable = True\<rparr>))
      | Some f \<Rightarrow>
          if writable f then Inr (fs(p \<mapsto> f\<lparr>content := content f @ c\<rparr>))
          else Inl (FsError (''EACCES: permission denied, open '' @ [CHR 0x27] @ p
                             @ [CHR 0x27])))"

definition unlinkSync :: "fs \<Rightarrow> string \<Rightarrow> fs" where
  "unlinkSync fs p = fs(p := None)"

section \<open>Instrumenter (instrumenter.ts)\<close>

definition REGION_PREFIX :: string where
  "REGION_PREFIX = ''claude-debug''"

definition js_capture :: "string \<Rightarrow> string" where
  "js_capture v = v @ '': typeof '' @ v @ '' !== 'undefined' ? '' @ v @ '' : undefined''"

definition generateJSInstrument :: "int \<Rightarrow> instrument \<Rightarrow> string" where
  "generateJSInstrument port instr =
     (let dataObj =
        (if length (capture instr) > 0
         then ''{ '' @ join '', '' (map js_capture (capture instr)) @ '' }''
         else ''{}'')
      in join_nl
        [''// #region '' @ REGION_PREFIX @ ''-'' @ inst_id instr,
         ''fetch('http://localhost:'' @ show_int port @ ''/log', {'',
         ''  method: 'POST','',
         ''  headers: { 'Content-Type': 'application/json' },'',
         ''  body: JSON.stringify({'',
         ''    id: ''  @ [CHR 0x27] @ inst_id instr @ [CHR 0x27] @ '','',
         ''    location: '' @ [CHR 0x27] @ inst_file instr @ '':'' @ show_int (line instr)
            @ [CHR 0x27] @ '','',
         ''    timestamp: Date.now(),'',
         ''    data: '' @ dataObj,
         ''  })'',
         ''}).catch(() => {});'',
         ''// #endregion '' @ REGION_PREFIX @ ''-'' @ inst_id instr])"

definition py_capture :: "string \<Rightarrow> string" where
  "py_capture v =
     [CHR 0x27] @ v @ [CHR 0x27] @ '': '' @ v @ '' if '' @ [CHR 0x27] @ v @ [CHR 0x27]
       @ '' in dir() else None''"

definition generatePythonInstrument :: "int \<Rightarrow> instrument \<Rightarrow> string" where
  "generatePythonInstrument port instr =
     (let dataDict =
        (if length (capture instr) > 0
         then ''{ '' @ join '', '' (map py_capture (capture instr)) @ '' }''
         else ''{}'')
      in join_nl
        [''# region '' @ REGION_PREFIX @ ''-'' @ inst_id instr,
         ''try:'',
         ''    import urllib.request as __dbg_req, json as __dbg_json'',
         ''    __dbg_req.urlopen(__dbg_req.Request('',
         ''        'http://localhost:'' @ show_int port @ ''/log','',
         ''        data=__dbg_json.dumps({'',
         ''            'id': '' @ [CHR 0x27] @ inst_id instr @ [CHR 0x27] @ '','',
         ''            'location': '' @ [CHR 0x27] @ inst_file instr @ '':''
            @ show_int (line instr) @ [CHR 0x27] @ '','',
         ''            'timestamp': __import__('time').time(),'',
         ''            'data': '' @ dataDict,
         ''        }).encode(),'',
         ''        headers={'Content-Type': 'application/json'}'',
         ''    ))'',
         ''except: pass'',
         ''# endregion '' @ REGION_PREFIX @ ''-'' @ inst_id instr])"

definition generateInstrumentCode :: "int \<Rightarrow> instrument \<Rightarrow> string" where
  "generateInstrumentCode port instr =
     (case language instr of
        javascript \<Rightarrow> generateJSInstrument port instr
      | typescript \<Rightarrow> generateJSInstrument port instr
      | python \<Rightarrow> generatePythonInstrument port instr)"

definition region_start :: "language \<Rightarrow> string" where
  "region_start lang = (if lang = python then ''# region '' else ''// #region '')"

definition region_end :: "language \<Rightarrow> string" where
  "region_end lang = (if lang = python then ''# endregion'' else ''// #endregion'')"

text \<open>
  \<open>removeRegion\<close> puts the region identifier into the source text of a regular
  expression as it is, without escaping. The syntax characters of ECMAScript regular
  expressions are \<^verbatim>\<open>^ $ \ . * + ? ( ) [ ] { } |\<close>; every other character of a
  pattern matches itself and nothing else (the pattern has the flag \<open>g\<close> only).
\<close>

definition syntax_chars :: string where
  "syntax_chars = ''^$.*+?()[]{}|'' @ [CHR 0x5C]"

definition literal_text :: "string \<Rightarrow> bool" where
  "literal_text s = list_all (\<lambda>c. c \<notin> set syntax_chars) s"

text \<open>A text of ASCII characters is read back from a file as it was written, whatever
  the encoding does to other characters.\<close>

definition ascii_text :: "string \<Rightarrow> bool" where
  "ascii_text s = list_all (\<lambda>c. (of_char c :: nat) < 128) s"

text \<open>The source text of the pattern, as the template literal builds it.\<close>

definition pattern_source :: "string \<Rightarrow> string \<Rightarrow> string" where
  "pattern_source S E =
     S @ ''[^'' @ [CHR 0x5C] @ ''n]*'' @ [CHR 0x5C] @ ''n['' @ [CHR 0x5C] @ ''s'' @ [CHR 0x5C]
       @ ''S]*?'' @ E @ ''[^'' @ [CHR 0x5C] @ ''n]*'' @ [CHR 0x5C] @ ''n?''"

text \<open>
  What \<open>content.replace(new RegExp(source, 'g'), '')\<close> returns, or throws (the
  constructor throws a \<open>SyntaxError\<close> for a source that is no pattern), for a pattern
  that the model does not interpret itself: a function of the library.
\<close>

type_synonym regex_replace = "string \<Rightarrow> string \<Rightarrow> error + string"

text \<open>
  For an identifier without syntax character the pattern is of the shape of the section
  on region patterns, with the literal start marker \<open>S\<close> ending in the identifier, and the
  result is that of \<open>replace_all\<close>. For any other identifier the pattern is another one
  (in \<open>dbg-1a2b.c4d\<close> the dot matches any character, \<open>dbg-1a2b(3c\<close> is no pattern at
  all), and the result is what the library gives.
\<close>

definition removeRegion :: "regex_replace \<Rightarrow> string \<Rightarrow> string \<Rightarrow> language \<Rightarrow> error + string" where
  "removeRegion rx text regionId lang =
     (if literal_text regionId then
        Inr (replace_all (region_start lang @ regionId) (region_end lang) text)
      else rx (pattern_source (region_start lang @ regionId) (region_end lang)) text)"

definition addInstrument :: "int \<Rightarrow> instrument \<Rightarrow> fs \<Rightarrow> error + fs" where
  "addInstrument port instr fs =
     (if \<not> existsSync fs (inst_file instr) then Inl (Error (''File not found: '' @ inst_file instr))
      else
        (case readFileSync fs (inst_file instr) of
           Inl e \<Rightarrow> Inl e
         | Inr text \<Rightarrow>
            (let lines = split_nl text in
             if line instr < 1 \<or> line instr > int (length lines) + 1 then
               Inl (Error (''Line '' @ show_int (line instr) @ '' is out of range (file has ''
                            @ show_int (int (length lines)) @ '' lines)''))
             else
               (let code = generateInstrumentCode port instr;
                    codeLines = split_nl code
                in writeFileSync fs (inst_file instr)
                     (join_nl (splice_in lines (nat (line instr - 1)) codeLines))))))"

definition removeInstrument ::
  "regex_replace \<Rightarrow> instrument \<Rightarrow> fs \<Rightarrow> error + (bool \<times> fs)" where
  "removeInstrument rx instr fs =
     (if \<not> existsSync fs (inst_file instr) then Inr (False, fs)
      else
        (case readFileSync fs (inst_file instr) of
           Inl e \<Rightarrow> Inl e
         | Inr text \<Rightarrow>
            (let regionId = REGION_PREFIX @ ''-'' @ inst_id instr
             in case removeRegion rx text regionId (language instr) of
                  Inl e \<Rightarrow> Inl e
                | Inr newContent \<Rightarrow>
                   if newContent \<noteq> text then
                     (case writeFileSync fs (inst_file instr) newContent of
                        Inl e \<Rightarrow> Inl e
                      | Inr fs' \<Rightarrow> Inr (True, fs'))
                   else Inr (False, fs))))"

text \<open>\<open>removeAllInstrumentsFromFile\<close> tries the patterns of a list in order; the source's
  list is the JS/TS pattern followed by the Python pattern. Both are fixed patterns of
  the shape of the section on region patterns, with literal markers and no identifier.\<close>

fun remove_patterns :: "(string \<times> string) list \<Rightarrow> string \<Rightarrow> nat \<Rightarrow> string \<times> nat" where
  "remove_patterns [] newContent count = (newContent, count)"
| "remove_patterns ((S, E) # ps) newContent count =
     (let matches = count_matches S E newContent in
      if matches > 0
      then remove_patterns ps (replace_all S E newContent) (count + matches)
      else remove_patterns ps newContent count)"

definition js_pattern :: "string \<times> string" where
  "js_pattern = (''// #region '' @ REGION_PREFIX @ ''-'', ''// #endregion'')"

definition py_pattern :: "string \<times> string" where
  "py_pattern = (''# region '' @ REGION_PREFIX @ ''-'', ''# endregion'')"

definition removeAllInstrumentsFromFile :: "string \<Rightarrow> fs \<Rightarrow> error + (nat \<times> fs)" where
  "removeAllInstrumentsFromFile f fs =
     (if \<not> existsSync fs f then Inr (0, fs)
      else
        (case readFileSync fs f of
           Inl e \<Rightarrow> Inl e
         | Inr text \<Rightarrow>
            (case remove_patterns [js_pattern, py_pattern] text 0 of
               (newContent, count) \<Rightarrow>
                 if count > 0 then
                   (case writeFileSync fs f newContent of
                      Inl e \<Rightarrow> Inl e
                    | Inr fs' \<Rightarrow> Inr (count, fs'))
                 else Inr (count, fs))))"

text \<open>The fields of an instrument that are copied into its block hold no \<open>#\<close>, and the
  identifier no newline.\<close>

definition plain_fields :: "instrument \<Rightarrow> bool" where
  "plain_fields i =
     (CHR ''#'' \<notin> set (inst_id i) \<and> nl \<notin> set (inst_id i) \<and> CHR ''#'' \<notin> set (inst_file i)
      \<and> (\<forall>v \<in> set (capture i). CHR ''#'' \<notin> set v))"

text \<open>The start marker of the region of an instrument.\<close>

definition start_marker :: "instrument \<Rightarrow> string" where
  "start_marker i = region_start (language i) @ REGION_PREFIX @ ''-'' @ inst_id i"

text \<open>\<open>addInstrument\<close> followed by \<open>removeInstrument\<close> of the same instrument.\<close>

definition add_then_remove ::
  "regex_replace \<Rightarrow> int \<Rightarrow> instrument \<Rightarrow> fs \<Rightarrow> error + (bool \<times> fs)" where
  "add_then_remove rx pt i fs =
     (case addInstrument pt i fs of Inl e \<Rightarrow> Inl e | Inr fs1 \<Rightarrow> removeInstrument rx i fs1)"

text \<open>A pattern of the source: the start marker of a dialect followed by \<open>claude-debug-\<close>
  and the beginning \<open>X\<close> of an identifier (empty for the wildcard), and the end marker of
  the dialect.\<close>

definition pattern_start :: "language \<Rightarrow> string \<Rightarrow> string" where
  "pattern_start lang X = region_start lang @ REGION_PREFIX @ ''-'' @ X"

text \<open>The pattern is for the dialect of the instrument, and \<open>X\<close> begins its identifier.\<close>

definition hits :: "language \<Rightarrow> string \<Rightarrow> instrument \<Rightarrow> bool" where
  "hits lang X i = ((lang = python) = (language i = python) \<and> prefix X (inst_id i))"

text \<open>A file laid out in pieces: a chunk of text of the user, or the block generated for
  an instrument. Every piece of the list is followed by a newline; the text ends with
  one more piece that is not (the empty chunk when the text ends with a newline).\<close>

datatype item = Plain string | Block instrument

fun item_text :: "int \<Rightarrow> item \<Rightarrow> string" where
  "item_text pt (Plain u) = u"
| "item_text pt (Block i) = generateInstrumentCode pt i"

definition render :: "int \<Rightarrow> item list \<Rightarrow> string" where
  "render pt its = concat (map (\<lambda>it. item_text pt it @ [nl]) its)"

definition layout :: "int \<Rightarrow> item list \<Rightarrow> item \<Rightarrow> string" where
  "layout pt its final = render pt its @ item_text pt final"

fun is_block :: "item \<Rightarrow> bool" where
  "is_block (Plain u) = False"
| "is_block (Block i) = True"

text \<open>A chunk must not mention \<open>claude-debug-\<close>; a block must be the block of an instrument
  with plain fields.\<close>

fun ok_item :: "item \<Rightarrow> bool" where
  "ok_item (Plain u) = (\<not> sublist (REGION_PREFIX @ ''-'') u)"
| "ok_item (Block i) = plain_fields i"

fun hit_item :: "language \<Rightarrow> string \<Rightarrow> item \<Rightarrow> bool" where
  "hit_item lang X (Plain u) = False"
| "hit_item lang X (Block i) = hits lang X i"

text \<open>What is left of a layout: the text of the chunks.\<close>

fun chunk_text :: "item \<Rightarrow> string" where
  "chunk_text (Plain u) = u"
| "chunk_text (Block i) = []"

text \<open>What stands before the \<open>#\<close> of a marker.\<close>

definition lead :: "language \<Rightarrow> string" where
  "lead lang = (if lang = python then [] else ''// '')"

text \<open>A piece of the file \<open>p\<close> while the instruments \<open>R\<close> are registered: a chunk that does
  not mention \<open>claude-debug-\<close>, or the block of an instrument of \<open>R\<close> for the file \<open>p\<close> with
  plain fields.\<close>

fun ok_for :: "instrument list \<Rightarrow> string \<Rightarrow> item \<Rightarrow> bool" where
  "ok_for R p (Plain u) = (\<not> sublist (REGION_PREFIX @ ''-'') u)"
| "ok_for R p (Block i) = (plain_fields i \<and> i \<in> set R \<and> inst_file i = p)"

definition laid_out :: "int \<Rightarrow> instrument list \<Rightarrow> string \<Rightarrow> string \<Rightarrow> bool" where
  "laid_out pt R p text =
     (\<exists>its final. text = layout pt its final \<and> (\<forall>it \<in> set (its @ [final]). ok_for R p it))"

text \<open>Every file of \<open>P\<close> that exists is writable and laid out.\<close>

definition files_ok :: "int \<Rightarrow> instrument list \<Rightarrow> string set \<Rightarrow> fs \<Rightarrow> bool" where
  "files_ok pt R P fs =
     (\<forall>p \<in> P. \<forall>f. fs p = Some f \<longrightarrow> writable f \<and> laid_out pt R p (content f))"

section \<open>Session, registry and log store (session.ts)\<close>

record debug_session =
  sess_id :: string
  port :: int
  startedAt :: int
  logFile :: string
  instruments :: "(string \<times> instrument) list"

text \<open>The \<open>instruments\<close> of a session are a JavaScript \<open>Map\<close>: the keys are distinct and
  are listed in insertion order; setting an existing key keeps its place.\<close>

fun map_set :: "'k \<Rightarrow> 'v \<Rightarrow> ('k \<times> 'v) list \<Rightarrow> ('k \<times> 'v) list" where
  "map_set k v [] = [(k, v)]"
| "map_set k v ((k', v') # m) =
     (if k' = k then (k, v) # m else (k', v') # map_set k v m)"

definition map_delete :: "'k \<Rightarrow> ('k \<times> 'v) list \<Rightarrow> bool \<times> ('k \<times> 'v) list" where
  "map_delete k m = (k \<in> fst ` set m, filter (\<lambda>kv. fst kv \<noteq> k) m)"

definition map_values :: "('k \<times> 'v) list \<Rightarrow> 'v list" where
  "map_values m = map snd m"

record instrument_options =
  opt_file :: string
  opt_line :: int
  opt_capture :: "string list"

text \<open>The \<open>DebugLogServer\<close> held by the session manager: its port, its log file, and
  whether it is listening.\<close>

record log_server =
  srv_port :: int
  srv_logFile :: string
  listening :: bool

text \<open>The state of the process: the fields of the \<open>SessionManager\<close>, the module variable
  \<open>instrumenter\<close> of index.ts (an \<open>Instrumenter\<close> is its port) and the file system.\<close>

record state =
  session :: "debug_session option"
  server :: "log_server option"
  workingDirectory :: string
  instrumenter :: "int option"
  files :: fs

text \<open>What a call takes from outside the program: \<open>path.resolve\<close>, whether the port can
  be bound, the value of \<open>randomUUID()\<close>, the value of \<open>Date.now()\<close>, the
  presentation of a log text by \<open>read_debug_logs\<close> (trimming, parsing and pretty-printing
  its lines), a pure function of the requested format and the text, and the regular
  expressions of the library on the patterns that the model does not interpret.\<close>

record env =
  resolve :: "string \<Rightarrow> string \<Rightarrow> string"
  listen_ok :: bool
  randomUUID :: string
  now :: int
  present :: "string \<Rightarrow> string \<Rightarrow> string"
  regex :: regex_replace

definition error_message :: "error \<Rightarrow> string" where
  "error_message e = (case e of Error m \<Rightarrow> m | FsError m \<Rightarrow> m)"

definition to_lower :: "char \<Rightarrow> char" where
  "to_lower c =
     (let n = (of_char c :: nat) in if 65 \<le> n \<and> n \<le> 90 then char_of (n + 32) else c)"

text \<open>\<open>toLowerCase\<close> is modelled on ASCII letters; no character beyond ASCII has a lower
  case among the letters of the extensions tested below.\<close>

definition detectLanguage :: "string \<Rightarrow> language" where
  "detectLanguage f =
     (let ext = map to_lower (last (split_on (CHR ''.'') f)) in
      if ext = ''ts'' \<or> ext = ''tsx'' then typescript
      else if ext = ''js'' \<or> ext = ''jsx'' \<or> ext = ''mjs'' \<or> ext = ''cjs'' then javascript
      else if ext = ''py'' then python
      else javascript)"

definition isActive :: "state \<Rightarrow> bool" where
  "isActive st = (session st \<noteq> None)"

text \<open>
  \<open>startSession\<close>: the guard, the reset of the log file, the collector, the session.
  When \<open>listen\<close> fails (the port is taken), \<open>server.start()\<close> rejects and \<open>startSession\<close>
  throws that error: the log file has been reset and the field \<open>server\<close> holds a
  collector that does not listen, and no session is set.
\<close>

definition startSession :: "env \<Rightarrow> int \<Rightarrow> state \<Rightarrow> (error + debug_session) \<times> state" where
  "startSession ev p st =
     (if session st \<noteq> None then
        (Inl (Error ''Debug session already active. Stop it first.''), st)
      else
        (let lf = resolve ev (workingDirectory st) ''debug.log'';
             fs1 = (if existsSync (files st) lf then unlinkSync (files st) lf else files st)
         in case writeFileSync fs1 lf [] of
              Inl e \<Rightarrow> (Inl e, st\<lparr>files := fs1\<rparr>)
            | Inr fs2 \<Rightarrow>
               (let st2 = st\<lparr>files := fs2,
                               server := Some \<lparr>srv_port = p, srv_logFile = lf,
                                                listening = False\<rparr>\<rparr>
                in if \<not> listen_ok ev then
                     (Inl (Error (''listen EADDRINUSE: address already in use :::''
                                  @ show_int p)), st2)
                   else
                     (let s = \<lparr>sess_id = randomUUID ev, port = p, startedAt = now ev,
                                 logFile = lf, instruments = []\<rparr>
                      in (Inr s,
                          st2\<lparr>server := Some \<lparr>srv_port = p, srv_logFile = lf,
                                                listening = True\<rparr>,
                               session := Some s\<rparr>)))))"

definition stopSession :: "state \<Rightarrow> state" where
  "stopSession st = st\<lparr>server := None, session := None\<rparr>"

definition sm_addInstrument ::
  "env \<Rightarrow> instrument_options \<Rightarrow> state \<Rightarrow> (error + instrument) \<times> state" where
  "sm_addInstrument ev opts st =
     (case session st of
        None \<Rightarrow> (Inl (Error ''No active debug session''), st)
      | Some s \<Rightarrow>
         (let instr = \<lparr>inst_id = ''dbg-'' @ take 8 (randomUUID ev),
                        inst_file = resolve ev (workingDirectory st) (opt_file opts),
                        line = opt_line opts,
                        language = detectLanguage (opt_file opts),
                        capture = opt_capture opts,
                        createdAt = now ev\<rparr>
          in (Inr instr,
              st\<lparr>session :=
                    Some (s\<lparr>instruments := map_set (inst_id instr) instr (instruments s)\<rparr>)\<rparr>)))"

definition sm_removeInstrument :: "string \<Rightarrow> state \<Rightarrow> (error + bool) \<times> state" where
  "sm_removeInstrument i st =
     (case session st of
        None \<Rightarrow> (Inl (Error ''No active debug session''), st)
      | Some s \<Rightarrow>
         (case map_delete i (instruments s) of
            (found, m) \<Rightarrow> (Inr found, st\<lparr>session := Some (s\<lparr>instruments := m\<rparr>)\<rparr>)))"

definition getInstruments :: "state \<Rightarrow> instrument list" where
  "getInstruments st =
     (case session st of None \<Rightarrow> [] | Some s \<Rightarrow> map_values (instruments s))"

definition getInstrumentsByFile :: "env \<Rightarrow> string \<Rightarrow> state \<Rightarrow> instrument list" where
  "getInstrumentsByFile ev f st =
     (let resolvedFile = resolve ev (workingDirectory st) f
      in filter (\<lambda>i. inst_file i = resolvedFile) (getInstruments st))"

definition clearInstruments :: "state \<Rightarrow> state" where
  "clearInstruments st =
     (case session st of
        None \<Rightarrow> st
      | Some s \<Rightarrow> st\<lparr>session := Some (s\<lparr>instruments := []\<rparr>)\<rparr>)"

definition readLogs :: "state \<Rightarrow> error + string" where
  "readLogs st =
     (case session st of
        None \<Rightarrow> Inl (Error ''No active debug session'')
      | Some s \<Rightarrow>
         if \<not> existsSync (files st) (logFile s) then Inr []
         else readFileSync (files st) (logFile s))"

definition clearLogs :: "state \<Rightarrow> (error + unit) \<times> state" where
  "clearLogs st =
     (case session st of
        None \<Rightarrow> (Inl (Error ''No active debug session''), st)
      | Some s \<Rightarrow>
         (case writeFileSync (files st) (logFile s) [] of
            Inl e \<Rightarrow> (Inl e, st)
          | Inr fs' \<Rightarrow> (Inr (), st\<lparr>files := fs'\<rparr>)))"

section \<open>Tool handlers (index.ts)\<close>

record tool_result =
  result_text :: string
  isError :: bool

datatype tool_call =
    start_debug_session "int option"
  | stop_debug_session
  | add_instrument "string option" "int option" "string list option"
  | remove_instruments "string option"
  | list_instruments
  | read_debug_logs "string option"
  | clear_debug_logs
  | unknown_tool string

text \<open>The loop \<open>for (const instrument of instruments) instrumenter.removeInstrument(instrument)\<close>:
  a removal that throws ends the loop, and the files changed so far stay changed.\<close>

fun remove_each :: "regex_replace \<Rightarrow> instrument list \<Rightarrow> fs \<Rightarrow> error option \<times> fs" where
  "remove_each rx [] fs = (None, fs)"
| "remove_each rx (i # is) fs =
     (case removeInstrument rx i fs of
        Inl e \<Rightarrow> (Some e, fs)
      | Inr (removed, fs') \<Rightarrow> remove_each rx is fs')"

text \<open>The loop of \<open>remove_instruments\<close> for one file, which also deletes each instrument
  from the registry.\<close>

fun remove_each_of_file ::
  "regex_replace \<Rightarrow> instrument list \<Rightarrow> state \<Rightarrow> error option \<times> state" where
  "remove_each_of_file rx [] st = (None, st)"
| "remove_each_of_file rx (i # is) st =
     (case removeInstrument rx i (files st) of
        Inl e \<Rightarrow> (Some e, st)
      | Inr (removed, fs') \<Rightarrow>
         (case sm_removeInstrument (inst_id i) (st\<lparr>files := fs'\<rparr>) of
            (Inl e, st') \<Rightarrow> (Some e, st')
          | (Inr found, st') \<Rightarrow> remove_each_of_file rx is st'))"

definition handle_start :: "env \<Rightarrow> int option \<Rightarrow> state \<Rightarrow> (error + tool_result) \<times> state" where
  "handle_start ev port_arg st =
     (let p = (case port_arg of None \<Rightarrow> 9876 | Some n \<Rightarrow> if n = 0 then 9876 else n)
      in case startSession ev p st of
           (Inl e, st') \<Rightarrow> (Inl e, st')
         | (Inr s, st') \<Rightarrow>
            (Inr \<lparr>result_text =
                     ''Debug session started!'' @ [nl, nl] @ ''Session ID: '' @ sess_id s @ [nl]
                     @ ''Server: http://localhost:'' @ show_int p @ [nl]
                     @ ''Log file: '' @ logFile s @ [nl, nl]
                     @ ''You can now add instruments to capture variable values.'',
                   isError = False\<rparr>,
             st'\<lparr>instrumenter := Some p\<rparr>))"

definition handle_stop :: "env \<Rightarrow> state \<Rightarrow> (error + tool_result) \<times> state" where
  "handle_stop ev st =
     (if \<not> isActive st then
        (Inr \<lparr>result_text = ''No active debug session to stop.'', isError = False\<rparr>, st)
      else
        (let insts = getInstruments st
         in case (if instrumenter st \<noteq> None then remove_each (regex ev) insts (files st)
                  else (None, files st)) of
              (Some e, fs') \<Rightarrow> (Inl e, st\<lparr>files := fs'\<rparr>)
            | (None, fs') \<Rightarrow>
               (Inr \<lparr>result_text =
                        ''Debug session stopped. Removed '' @ show_int (int (length insts))
                        @ '' instrument(s) from code.'',
                      isError = False\<rparr>,
                (stopSession (st\<lparr>files := fs'\<rparr>))\<lparr>instrumenter := None\<rparr>)))"

definition handle_add ::
  "env \<Rightarrow> string option \<Rightarrow> int option \<Rightarrow> string list option \<Rightarrow> state
     \<Rightarrow> (error + tool_result) \<times> state" where
  "handle_add ev file_arg line_arg capture_arg st =
     (if \<not> isActive st \<or> instrumenter st = None then
        (Inr \<lparr>result_text =
                 ''No active debug session. Start one first with start_debug_session.'',
               isError = True\<rparr>, st)
      else if file_arg = None \<or> file_arg = Some [] \<or> line_arg = None \<or> line_arg = Some 0 then
        (Inr \<lparr>result_text = ''Missing required parameters: file and line'',
               isError = True\<rparr>, st)
      else
        (let f = the file_arg; l = the line_arg;
             c = (case capture_arg of None \<Rightarrow> [] | Some c \<Rightarrow> c)
         in case sm_addInstrument ev \<lparr>opt_file = f, opt_line = l, opt_capture = c\<rparr> st of
              (Inl e, st') \<Rightarrow> (Inl e, st')
            | (Inr instr, st') \<Rightarrow>
               (case addInstrument (the (instrumenter st)) instr (files st') of
                  Inl e \<Rightarrow> (Inl e, st')
                | Inr fs' \<Rightarrow>
                   (Inr \<lparr>result_text =
                            ''Instrument added!'' @ [nl, nl] @ ''ID: '' @ inst_id instr @ [nl]
                            @ ''File: '' @ inst_file instr @ [nl]
                            @ ''Line: '' @ show_int l @ [nl]
                            @ ''Capturing: ''
                            @ (if length c > 0 then join '', '' c else ''(no variables)'')
                            @ [nl, nl]
                            @ ''The instrument will log data when that line is executed.'',
                          isError = False\<rparr>,
                    st'\<lparr>files := fs'\<rparr>))))"

definition handle_remove :: "env \<Rightarrow> string option \<Rightarrow> state \<Rightarrow> (error + tool_result) \<times> state" where
  "handle_remove ev file_arg st =
     (if \<not> isActive st \<or> instrumenter st = None then
        (Inr \<lparr>result_text = ''No active debug session.'', isError = True\<rparr>, st)
      else if file_arg \<noteq> None \<and> file_arg \<noteq> Some [] then
        (let f = the file_arg; insts = getInstrumentsByFile ev f st
         in case remove_each_of_file (regex ev) insts st of
              (Some e, st') \<Rightarrow> (Inl e, st')
            | (None, st') \<Rightarrow>
               (Inr \<lparr>result_text =
                        ''Removed '' @ show_int (int (length insts)) @ '' instrument(s) from '' @ f,
                      isError = False\<rparr>, st'))
      else
        (let insts = getInstruments st
         in case remove_each (regex ev) insts (files st) of
              (Some e, fs') \<Rightarrow> (Inl e, st\<lparr>files := fs'\<rparr>)
            | (None, fs') \<Rightarrow>
               (Inr \<lparr>result_text =
                        ''Removed '' @ show_int (int (length insts))
                        @ '' instrument(s) from all files'',
                      isError = False\<rparr>,
                clearInstruments (st\<lparr>files := fs'\<rparr>))))"

definition list_line :: "instrument \<Rightarrow> string" where
  "list_line i =
     ''- '' @ inst_id i @ '': '' @ inst_file i @ '':'' @ show_int (line i) @ '' [''
     @ (if join '', '' (capture i) \<noteq> [] then join '', '' (capture i) else ''no capture'')
     @ '']''"

definition handle_list :: "state \<Rightarrow> (error + tool_result) \<times> state" where
  "handle_list st =
     (let insts = getInstruments st
      in if length insts = 0 then
           (Inr \<lparr>result_text = ''No active instruments.'', isError = False\<rparr>, st)
         else
           (Inr \<lparr>result_text =
                    ''Active instruments ('' @ show_int (int (length insts)) @ ''):'' @ [nl, nl]
                    @ join_nl (map list_line insts),
                  isError = False\<rparr>, st))"

definition handle_read :: "env \<Rightarrow> string option \<Rightarrow> state \<Rightarrow> (error + tool_result) \<times> state" where
  "handle_read ev format_arg st =
     (if \<not> isActive st then
        (Inr \<lparr>result_text = ''No active debug session.'', isError = True\<rparr>, st)
      else
        (let fmt = (case format_arg of None \<Rightarrow> ''pretty''
                    | Some f \<Rightarrow> if f = [] then ''pretty'' else f)
         in case readLogs st of
              Inl e \<Rightarrow> (Inl e, st)
            | Inr logs \<Rightarrow> (Inr \<lparr>result_text = present ev fmt logs, isError = False\<rparr>, st)))"

definition handle_clear :: "state \<Rightarrow> (error + tool_result) \<times> state" where
  "handle_clear st =
     (if \<not> isActive st then
        (Inr \<lparr>result_text = ''No active debug session.'', isError = True\<rparr>, st)
      else
        (case clearLogs st of
           (Inl e, st') \<Rightarrow> (Inl e, st')
         | (Inr u, st') \<Rightarrow>
            (Inr \<lparr>result_text = ''Debug logs cleared.'', isError = False\<rparr>, st')))"

text \<open>The request handler: the \<open>switch\<close> on the tool name inside \<open>try\<close>, and the \<open>catch\<close>
  that turns a thrown error into an error result. What a handler changed before it threw
  stays changed.\<close>

definition call_tool :: "env \<Rightarrow> tool_call \<Rightarrow> state \<Rightarrow> tool_result \<times> state" where
  "call_tool ev call st =
     (case
        (case call of
           start_debug_session p \<Rightarrow> handle_start ev p st
         | stop_debug_session \<Rightarrow> handle_stop ev st
         | add_instrument f l c \<Rightarrow> handle_add ev f l c st
         | remove_instruments f \<Rightarrow> handle_remove ev f st
         | list_instruments \<Rightarrow> handle_list st
         | read_debug_logs f \<Rightarrow> handle_read ev f st
         | clear_debug_logs \<Rightarrow> handle_clear st
         | unknown_tool n \<Rightarrow>
            (Inr \<lparr>result_text = ''Unknown tool: '' @ n, isError = True\<rparr>, st))
      of
        (Inl e, st') \<Rightarrow> (\<lparr>result_text = ''Error: '' @ error_message e, isError = True\<rparr>, st')
      | (Inr r, st') \<Rightarrow> (r, st'))"

section \<open>Log collector (server.ts)\<close>

datatype json =
    JNull
  | JBool bool
  | JNum real
  | JStr string
  | JArr "json list"
  | JObj "(string \<times> json) list"

text \<open>What the collector takes from outside the program: \<open>JSON.parse\<close> (\<open>None\<close> when it
  throws), the text of a number as \<open>JSON.stringify\<close> writes it, and \<open>Date.now()\<close>.
  A \<open>JObj\<close> lists the properties of an object in their enumeration order, with
  distinct keys.\<close>

record js_lib =
  JSON_parse :: "string \<Rightarrow> json option"
  number_text :: "real \<Rightarrow> string"
  date_now :: int

definition hex_digit :: "nat \<Rightarrow> char" where
  "hex_digit n = ''0123456789abcdef'' ! n"

definition quote_char :: "char \<Rightarrow> string" where
  "quote_char c =
     (let n = (of_char c :: nat) in
      if c = CHR 0x22 then [CHR 0x5C, CHR 0x22]
      else if c = CHR 0x5C then [CHR 0x5C, CHR 0x5C]
      else if n = 8 then [CHR 0x5C, CHR ''b'']
      else if n = 12 then [CHR 0x5C, CHR ''f'']
      else if n = 10 then [CHR 0x5C, CHR ''n'']
      else if n = 13 then [CHR 0x5C, CHR ''r'']
      else if n = 9 then [CHR 0x5C, CHR ''t'']
      else if n < 32 then [CHR 0x5C, CHR ''u'', CHR ''0'', CHR ''0'',
                           hex_digit (n div 16), hex_digit (n mod 16)]
      else [c])"

definition quote_json :: "string \<Rightarrow> string" where
  "quote_json s = [CHR 0x22] @ concat (map quote_char s) @ [CHR 0x22]"

text \<open>\<open>JSON.stringify\<close> without indentation.\<close>

fun stringify :: "(real \<Rightarrow> string) \<Rightarrow> json \<Rightarrow> string" where
  "stringify nt JNull = ''null''"
| "stringify nt (JBool b) = (if b then ''true'' else ''false'')"
| "stringify nt (JNum x) = nt x"
| "stringify nt (JStr s) = quote_json s"
| "stringify nt (JArr xs) = ''['' @ join '','' (map (stringify nt) xs) @ '']''"
| "stringify nt (JObj kvs) =
     ''{'' @ join '','' (map (\<lambda>kv. quote_json (fst kv) @ '':'' @ stringify nt (snd kv)) kvs)
     @ ''}''"

text \<open>The own enumerable properties that the spread \<open>{...entry}\<close> copies: the properties
  of an object, the indices of an array or of a string, none for a number, a boolean or
  \<open>null\<close>.\<close>

definition own_props :: "json \<Rightarrow> (string \<times> json) list" where
  "own_props j =
     (case j of
        JObj kvs \<Rightarrow> kvs
      | JArr xs \<Rightarrow> map (\<lambda>i. (show_int (int i), xs ! i)) [0 ..< length xs]
      | JStr s \<Rightarrow> map (\<lambda>i. (show_int (int i), JStr [s ! i])) [0 ..< length s]
      | _ \<Rightarrow> [])"

definition writeLog :: "js_lib \<Rightarrow> log_server \<Rightarrow> json \<Rightarrow> fs \<Rightarrow> error + fs" where
  "writeLog lib srv entry fs =
     (let logLine =
        stringify (number_text lib)
          (JObj (map_set ''receivedAt'' (JNum (of_int (date_now lib))) (own_props entry)))
        @ [nl]
      in appendFileSync fs (srv_logFile srv) logLine)"

record request =
  req_method :: string
  req_url :: string
  req_body :: string

record response =
  status :: nat
  headers :: "(string \<times> string) list"
  body :: string

definition cors_headers :: "(string \<times> string) list" where
  "cors_headers =
     [(''Access-Control-Allow-Origin'', ''*''),
      (''Access-Control-Allow-Methods'', ''POST, GET, OPTIONS''),
      (''Access-Control-Allow-Headers'', ''Content-Type'')]"

definition json_response :: "js_lib \<Rightarrow> nat \<Rightarrow> json \<Rightarrow> response" where
  "json_response lib code j =
     \<lparr>status = code,
      headers = cors_headers @ [(''Content-Type'', ''application/json'')],
      body = stringify (number_text lib) j\<rparr>"

definition handleRequest :: "js_lib \<Rightarrow> log_server \<Rightarrow> request \<Rightarrow> fs \<Rightarrow> response \<times> fs" where
  "handleRequest lib srv req fs =
     (if req_method req = ''OPTIONS'' then
        (\<lparr>status = 204, headers = cors_headers, body = []\<rparr>, fs)
      else if req_method req = ''GET'' \<and> req_url req = ''/health'' then
        (json_response lib 200
           (JObj [(''status'', JStr ''ok''), (''port'', JNum (of_int (srv_port srv)))]), fs)
      else if req_method req = ''POST'' \<and> req_url req = ''/log'' then
        (case JSON_parse lib (req_body req) of
           None \<Rightarrow> (json_response lib 400 (JObj [(''error'', JStr ''Invalid JSON'')]), fs)
         | Some logEntry \<Rightarrow>
            (case writeLog lib srv logEntry fs of
               Inl e \<Rightarrow> (json_response lib 400 (JObj [(''error'', JStr ''Invalid JSON'')]), fs)
             | Inr fs' \<Rightarrow> (json_response lib 200 (JObj [(''success'', JBool True)]), fs')))
      else (json_response lib 404 (JObj [(''error'', JStr ''Not found'')]), fs))"

section \<open>Example inputs\<close>

text \<open>\<open>path.resolve\<close> on a working directory and a path that are already normalised.\<close>

definition posix_resolve :: "string \<Rightarrow> string \<Rightarrow> string" where
  "posix_resolve wd p = (if p \<noteq> [] \<and> hd p = CHR ''/'' then p else wd @ ''/'' @ p)"

definition raw_logs :: "string \<Rightarrow> string \<Rightarrow> string" where
  "raw_logs fmt logs = logs"

text \<open>No identifier of the examples holds a syntax character, so that no example asks the
  library for a pattern of its own; \<open>no_regex\<close> stands for the library there.\<close>

definition no_regex :: regex_replace where
  "no_regex source text = Inl (Error (''Invalid regular expression: /'' @ source @ ''/''))"

definition demo_env :: env where
  "demo_env =
     \<lparr>resolve = posix_resolve, listen_ok = True,
      randomUUID = ''3f2a9c1e-8b7d-4e6f-a1b2-c3d4e5f60718'', now = 1700000000000,
      present = raw_logs, regex = no_regex\<rparr>"

definition demo_session :: debug_session where
  "demo_session =
     \<lparr>sess_id = ''0a1b2c3d-0000-4000-8000-000000000000'', port = 9876,
      startedAt = 1699999999000, logFile = ''/w/debug.log'', instruments = []\<rparr>"

definition demo_server :: log_server where
  "demo_server = \<lparr>srv_port = 9876, srv_logFile = ''/w/debug.log'', listening = True\<rparr>"

definition demo_files :: fs where
  "demo_files =
     [''/w/debug.log'' \<mapsto> \<lparr>content = [], utf8 = True, writable = True\<rparr>,
      ''/w/a.js'' \<mapsto> \<lparr>content = ''let x = 1;'', utf8 = True, writable = True\<rparr>]"

definition demo_state :: state where
  "demo_state =
     \<lparr>session = Some demo_session, server = Some demo_server,
      workingDirectory = ''/w'', instrumenter = Some 9876, files = demo_files\<rparr>"

definition idle_state :: state where
  "idle_state =
     \<lparr>session = None, server = None, workingDirectory = ''/w'', instrumenter = None,
      files = demo_files\<rparr>"


definition demo_body :: string where
  \<open>demo_body = ''{"id":"x","location":"a.js:1","timestamp":123,"data":{"a":1}}''\<close>

definition demo_entry :: "(string \<times> json) list" where
  "demo_entry =
     [(''id'', JStr ''x''), (''location'', JStr ''a.js:1''), (''timestamp'', JNum 123),
      (''data'', JObj [(''a'', JNum 1)])]"

definition demo_instrument :: instrument where
  "demo_instrument =
     \<lparr>inst_id = ''dbg-1a2b3c4d'', inst_file = ''/w/a.js'', line = 1, language = javascript,
      capture = [''x''], createdAt = 1700000000000\<rparr>"

definition joined_text :: string where
  "joined_text =
     ''// #region claude-debug-// #region claude-debug-dbg-1a2b3c4d\<newline>// #endregion\<newline>dbg-1a2b3c4d\<newline>// #endregion''"

definition region_text :: string where
  "region_text =
     ''a\<newline>// #region claude-debug-dbg-1a2b3c4d\<newline>b\<newline>// #endregion\<newline>c''"

definition region_files :: fs where
  "region_files = [''/w/a.js'' \<mapsto> \<lparr>content = region_text, utf8 = True, writable = True\<rparr>]"

definition mixed_text :: string where
  "mixed_text =
     ''# region claude-debug-a\<newline>x // #region claude-debug-x\<newline># endregion\<newline>keep\<newline>// #region claude-debug-b\<newline>y\<newline>// #endregion\<newline>''"

definition py_instrument :: instrument where
  "py_instrument =
     \<lparr>inst_id = ''dbg-5e6f7a8b'', inst_file = ''/w/a.js'', line = 3, language = python,
      capture = [], createdAt = 1700000000001\<rparr>"

definition demo_items :: "item list" where
  "demo_items = [Plain ''a'', Block demo_instrument, Plain ''b'', Block py_instrument]"

definition layout_files :: fs where
  "layout_files =
     [''/w/a.js'' \<mapsto> \<lparr>content = layout 9876 demo_items (Plain []), utf8 = True, writable = True\<rparr>]"

definition second_instrument :: instrument where
  "second_instrument =
     \<lparr>inst_id = ''dbg-9c0d1e2f'', inst_file = ''/w/a.js'', line = 4, language = javascript,
      capture = [], createdAt = 1700000000002\<rparr>"

definition third_instrument :: instrument where
  "third_instrument =
     \<lparr>inst_id = ''dbg-5e6f7a8b'', inst_file = ''/w/b.py'', line = 1, language = python,
      capture = [''n''], createdAt = 1700000000003\<rparr>"

text \<open>A session with three instruments in two files.\<close>

definition busy_files :: fs where
  "busy_files =
     [''/w/a.js'' \<mapsto>
        \<lparr>content = layout 9876
           [Plain ''let x = 1;'', Block demo_instrument, Plain ''let y = 2;'',
            Block second_instrument] (Plain ''done();''),
         utf8 = True, writable = True\<rparr>,
      ''/w/b.py'' \<mapsto>
        \<lparr>content = layout 9876 [Block third_instrument, Plain ''n = 1''] (Plain []),
         utf8 = True, writable = True\<rparr>]"

definition busy_state :: state where
  "busy_state =
     \<lparr>session = Some (demo_session\<lparr>instruments :=
         [(''dbg-1a2b3c4d'', demo_instrument), (''dbg-9c0d1e2f'', second_instrument),
          (''dbg-5e6f7a8b'', third_instrument)]\<rparr>),
      server = Some demo_server, workingDirectory = ''/w'', instrumenter = Some 9876,
      files = busy_files\<rparr>"

text \<open>A session with two instruments; the file of the first is read-only.\<close>

definition locked_state :: state where
  "locked_state =
     \<lparr>session = Some (demo_session\<lparr>instruments :=
         [(''dbg-1a2b3c4d'', demo_instrument),
          (''dbg-9c0d1e2f'', second_instrument\<lparr>inst_file := ''/w/b.js''\<rparr>)]\<rparr>),
      server = Some demo_server, workingDirectory = ''/w'', instrumenter = Some 9876,
      files =
        [''/w/a.js'' \<mapsto> \<lparr>content = region_text, utf8 = True, writable = False\<rparr>,
         ''/w/b.js'' \<mapsto>
           \<lparr>content = ''// #region claude-debug-dbg-9c0d1e2f\<newline>y\<newline>// #endregion\<newline>'',
            utf8 = True, writable = True\<rparr>]\<rparr>"

text \<open>The state after two insertions into a file of one line, at line 1 and then at line 3,
  which lies inside the first block.\<close>

definition nested_state :: state where
  "nested_state =
     snd (call_tool (demo_env\<lparr>randomUUID := ''7d8e9f0a-1b2c-4d3e-8f90-a1b2c3d4e5f6''\<rparr>)
            (add_instrument (Some ''a.js'') (Some 3) None)
            (snd (call_tool demo_env (add_instrument (Some ''a.js'') (Some 1) None) demo_state)))"

text \<open>\<open>JSON.parse\<close> on the request bodies of the examples; \<open>not json\<close> and every other
  text stand for a body that does not parse.\<close>

definition demo_parse :: "string \<Rightarrow> json option" where
  \<open>demo_parse b =
     (if b = ''5'' then Some (JNum 5)
      else if b = ''6'' then Some (JNum 6)
      else if b = demo_body then Some (JObj demo_entry)
      else None)\<close>

definition integer_text :: "real \<Rightarrow> string" where
  "integer_text x = show_int \<lfloor>x\<rfloor>"

definition demo_lib :: js_lib where
  "demo_lib = \<lparr>JSON_parse = demo_parse, number_text = integer_text, date_now = 1700000000000\<rparr>"

definition post_log :: "string \<Rightarrow> request" where
  "post_log b = \<lparr>req_method = ''POST'', req_url = ''/log'', req_body = b\<rparr>"

section \<open>Session state and tool handlers: properties\<close>

lemmas handler_defs =
  call_tool_def handle_add_def handle_list_def handle_read_def handle_clear_def
  handle_remove_def handle_start_def handle_stop_def isActive_def getInstruments_def
  map_values_def error_message_def

text \<open>
  C9. While no session is active, \<open>list_instruments\<close> answers with an empty listing that
  is not an error, and \<open>read_debug_logs\<close>, \<open>add_instrument\<close>, \<open>remove_instruments\<close> and
  \<open>clear_debug_logs\<close> each answer with a "no active debug session" error; none of them
  changes the state.
\<close>

theorem inactive_list_empty_others_fail:
  assumes "session st = None"
  shows "call_tool ev list_instruments st =
           (\<lparr>result_text = ''No active instruments.'', isError = False\<rparr>, st)
       \<and> call_tool ev (read_debug_logs fmt) st =
           (\<lparr>result_text = ''No active debug session.'', isError = True\<rparr>, st)
       \<and> call_tool ev (add_instrument f l c) st =
           (\<lparr>result_text =
               ''No active debug session. Start one first with start_debug_session.'',
             isError = True\<rparr>, st)
       \<and> call_tool ev (remove_instruments g) st =
           (\<lparr>result_text = ''No active debug session.'', isError = True\<rparr>, st)
       \<and> call_tool ev clear_debug_logs st =
           (\<lparr>result_text = ''No active debug session.'', isError = True\<rparr>, st)"
  using assms by (simp add: handler_defs)

theorem inactive_list_empty_others_fail_witness:
  "session idle_state = None
   \<and> call_tool demo_env list_instruments idle_state =
       (\<lparr>result_text = ''No active instruments.'', isError = False\<rparr>, idle_state)
   \<and> call_tool demo_env (read_debug_logs (Some ''raw'')) idle_state =
       (\<lparr>result_text = ''No active debug session.'', isError = True\<rparr>, idle_state)
   \<and> call_tool demo_env (add_instrument (Some ''a.js'') (Some 1) None) idle_state =
       (\<lparr>result_text =
           ''No active debug session. Start one first with start_debug_session.'',
         isError = True\<rparr>, idle_state)
   \<and> call_tool demo_env (remove_instruments None) idle_state =
       (\<lparr>result_text = ''No active debug session.'', isError = True\<rparr>, idle_state)
   \<and> call_tool demo_env clear_debug_logs idle_state =
       (\<lparr>result_text = ''No active debug session.'', isError = True\<rparr>, idle_state)"
proof -
  have h: "session idle_state = None" by (simp add: idle_state_def)
  show ?thesis
    using h inactive_list_empty_others_fail
            [OF h, of demo_env "Some ''raw''" "Some ''a.js''" "Some 1" None None]
    by simp
qed

text \<open>
  C10. In an active session whose log file does not exist, \<open>readLogs\<close> returns the empty
  string and does not throw.
\<close>

theorem readLogs_missing_file:
  assumes "session st = Some s" and "files st (logFile s) = None"
  shows "readLogs st = Inr []"
  using assms by (simp add: readLogs_def existsSync_def)

theorem readLogs_missing_file_witness:
  "session (demo_state\<lparr>files := Map.empty\<rparr>) = Some demo_session
   \<and> files (demo_state\<lparr>files := Map.empty\<rparr>) (logFile demo_session) = None
   \<and> readLogs (demo_state\<lparr>files := Map.empty\<rparr>) = Inr []"
proof -
  have a: "session (demo_state\<lparr>files := Map.empty\<rparr>) = Some demo_session"
    by (simp add: demo_state_def)
  have b: "files (demo_state\<lparr>files := Map.empty\<rparr>) (logFile demo_session) = None"
    by simp
  show ?thesis using a b readLogs_missing_file [OF a b] by simp
qed




text \<open>
  C4 (what the code does). \<open>add_instrument\<close> with line 5 on a file of one line, in an
  active session with an empty registry: the call reports the out-of-range error and
  the files are untouched, but the registry now lists the instrument, which was
  registered before the line was checked.
\<close>

theorem add_out_of_range_leaves_registry_entry:
  "fst (call_tool demo_env (add_instrument (Some ''a.js'') (Some 5) None) demo_state) =
     \<lparr>result_text = ''Error: Line 5 is out of range (file has 1 lines)'', isError = True\<rparr>
   \<and> files (snd (call_tool demo_env (add_instrument (Some ''a.js'') (Some 5) None) demo_state))
       = files demo_state
   \<and> getInstruments demo_state = []
   \<and> getInstruments
        (snd (call_tool demo_env (add_instrument (Some ''a.js'') (Some 5) None) demo_state)) =
       [\<lparr>inst_id = ''dbg-3f2a9c1e'', inst_file = ''/w/a.js'', line = 5,
          language = javascript, capture = [], createdAt = 1700000000000\<rparr>]"
  by (simp add: handler_defs demo_state_def demo_env_def demo_session_def demo_files_def
      sm_addInstrument_def addInstrument_def existsSync_def readFileSync_def
      posix_resolve_def detectLanguage_def to_lower_def show_int_def digits.simps digit_char_def Let_def)

section \<open>Log collector: properties\<close>

lemma digit_char_in: "d < 10 \<Longrightarrow> digit_char d \<in> set ''0123456789''"
  unfolding digit_char_def by (intro nth_mem) simp
lemma digits_chars: "set (digits n) \<subseteq> set ''0123456789''"
proof (induction n rule: digits.induct)
  case (1 n)
  show ?case
  proof (cases "n < 10")
    case True
    then show ?thesis using digit_char_in[of n] by (subst digits.simps) simp
  next
    case False
    have "n mod 10 < 10" by simp
    then have "digit_char (n mod 10) \<in> set ''0123456789''" by (rule digit_char_in)
    with False 1 show ?thesis by (subst digits.simps) simp
  qed
qed
lemma show_int_chars: "set (show_int i) \<subseteq> set ''-0123456789''"
proof -
  have e: "set ''-0123456789'' = insert (CHR ''-'') (set ''0123456789'')"
    by (simp only: list.set)
  show ?thesis
  proof (cases "i < 0")
    case True
    then have "show_int i = CHR ''-'' # digits (nat (- i))" by (simp add: show_int_def)
    then have "set (show_int i) = insert (CHR ''-'') (set (digits (nat (- i))))"
      by (simp only: list.set)
    also have "\<dots> \<subseteq> insert (CHR ''-'') (set ''0123456789'')"
      by (rule insert_mono) (rule digits_chars)
    finally show ?thesis unfolding e .
  next
    case False
    then have "show_int i = digits (nat i)" by (simp add: show_int_def)
    then have "set (show_int i) \<subseteq> set ''0123456789''" using digits_chars by simp
    also have "\<dots> \<subseteq> insert (CHR ''-'') (set ''0123456789'')" by (rule subset_insertI)
    finally show ?thesis unfolding e .
  qed
qed
lemma show_int_avoids: "c \<notin> set ''-0123456789'' \<Longrightarrow> c \<notin> set (show_int i)"
  using show_int_chars by blast
lemma integer_text_no_nl: "nl \<notin> set (integer_text x)"
  unfolding integer_text_def by (rule show_int_avoids) simp

lemma hex_digit_no_nl: "n < 16 \<Longrightarrow> hex_digit n \<noteq> nl"
proof -
  assume "n < 16"
  then have "hex_digit n \<in> set ''0123456789abcdef''"
    unfolding hex_digit_def by (intro nth_mem) simp
  then show ?thesis by auto
qed

lemma quote_char_no_nl: "nl \<notin> set (quote_char c)"
proof -
  have h: "nl \<noteq> hex_digit (n div 16) \<and> nl \<noteq> hex_digit (n mod 16)" if "n < 32" for n
  proof -
    have "n div 16 < 16" "n mod 16 < 16" using that by auto
    then show ?thesis using hex_digit_no_nl by metis
  qed
  show ?thesis using h[of "of_char c"]
    by (auto simp: quote_char_def Let_def)
qed

lemma quote_json_no_nl: "nl \<notin> set (quote_json s)"
  by (auto simp: quote_json_def quote_char_no_nl)

lemma join_avoids:
  "c \<notin> set sep \<Longrightarrow> (\<And>x. x \<in> set xs \<Longrightarrow> c \<notin> set x) \<Longrightarrow> c \<notin> set (join sep xs)"
  by (induction sep xs rule: join.induct) auto

text \<open>\<open>JSON.stringify\<close> writes no line break: the text of a value is one line.\<close>

lemma stringify_no_nl:
  assumes "\<And>x. nl \<notin> set (nt x)"
  shows "nl \<notin> set (stringify nt j)"
proof (induction j)
  case (JArr xs)
  have "nl \<notin> set (join '','' (map (stringify nt) xs))"
    by (rule join_avoids) (use JArr in auto)
  then show ?case by simp
next
  case (JObj kvs)
  have "nl \<notin> set (join '',''
          (map (\<lambda>kv. quote_json (fst kv) @ '':'' @ stringify nt (snd kv)) kvs))"
  proof (rule join_avoids)
    fix x
    assume "x \<in> set (map (\<lambda>kv. quote_json (fst kv) @ '':'' @ stringify nt (snd kv)) kvs)"
    then obtain kv where kv: "kv \<in> set kvs"
      and x: "x = quote_json (fst kv) @ '':'' @ stringify nt (snd kv)"
      by auto
    have "snd kv \<in> Basic_BNFs.snds kv" by (cases kv) simp
    with JObj kv have "nl \<notin> set (stringify nt (snd kv))" by blast
    then show "nl \<notin> set x" using x by (simp add: quote_json_no_nl)
  qed simp
  then show ?case by simp
qed (use assms in \<open>simp_all add: quote_json_no_nl\<close>)

lemma success_body: \<open>stringify nt (JObj [(''success'', JBool True)]) = ''{"success":true}''\<close>
  by (simp add: quote_json_def quote_char_def)

lemma invalid_body:
  \<open>stringify nt (JObj [(''error'', JStr ''Invalid JSON'')]) = ''{"error":"Invalid JSON"}''\<close>
  by (simp add: quote_json_def quote_char_def)

text \<open>
  C8. A POST to \<open>/log\<close> whose body does not parse as JSON is answered with status 400 and
  the body \<open>{"error":"Invalid JSON"}\<close>, and the file system, the log store included, is
  exactly as before.
\<close>

theorem invalid_json_rejected:
  assumes "req_method req = ''POST''" and "req_url req = ''/log''"
    and "JSON_parse lib (req_body req) = None"
  shows \<open>handleRequest lib srv req fs =
           (\<lparr>status = 400,
             headers = cors_headers @ [(''Content-Type'', ''application/json'')],
             body = ''{"error":"Invalid JSON"}''\<rparr>, fs)\<close>
  using assms
  by (simp add: handleRequest_def json_response_def invalid_body del: stringify.simps)

theorem invalid_json_rejected_witness:
  \<open>req_method (post_log ''not json'') = ''POST'' \<and> req_url (post_log ''not json'') = ''/log''
   \<and> JSON_parse demo_lib (req_body (post_log ''not json'')) = None
   \<and> handleRequest demo_lib demo_server (post_log ''not json'') demo_files =
       (\<lparr>status = 400,
         headers = cors_headers @ [(''Content-Type'', ''application/json'')],
         body = ''{"error":"Invalid JSON"}''\<rparr>, demo_files)\<close>
proof -
  have a: "req_method (post_log ''not json'') = ''POST''"
    and b: "req_url (post_log ''not json'') = ''/log''"
    and c: "JSON_parse demo_lib (req_body (post_log ''not json'')) = None"
    by (simp_all add: post_log_def demo_lib_def demo_parse_def demo_body_def)
  show ?thesis using a b c invalid_json_rejected [OF a b c] by simp
qed

text \<open>
  C7 as stated fails for a valid JSON document that is not an object. The bodies \<open>5\<close> and
  \<open>6\<close> both parse; both are answered alike and both append the same line
  \<open>{"receivedAt":1700000000000}\<close>, in which the posted document does not appear.
\<close>

theorem scalar_document_not_logged:
  \<open>JSON_parse demo_lib ''5'' = Some (JNum 5) \<and> JSON_parse demo_lib ''6'' = Some (JNum 6)
   \<and> handleRequest demo_lib demo_server (post_log ''5'') demo_files =
       handleRequest demo_lib demo_server (post_log ''6'') demo_files
   \<and> map_option content
        (snd (handleRequest demo_lib demo_server (post_log ''5'') demo_files) ''/w/debug.log'') =
       Some (''{"receivedAt":1700000000000}'' @ [nl])\<close>
  by (simp add: handleRequest_def json_response_def success_body writeLog_def
      appendFileSync_def own_props_def post_log_def demo_lib_def demo_parse_def
      demo_server_def demo_files_def integer_text_def show_int_def digits.simps digit_char_def
      quote_json_def quote_char_def)

text \<open>
  C7, amended. A POST to \<open>/log\<close> whose body parses as a JSON object, while the log file
  exists and is writable, is answered with status 200 and the body \<open>{"success":true}\<close>,
  and exactly one line is appended to the log file: the text of the posted object with
  its field \<open>receivedAt\<close> set to the number \<open>Date.now()\<close> (added last when the object has
  no such field), followed by a newline. The line holds no other newline as long as
  the text of a number holds none.
\<close>

theorem valid_object_logged:
  assumes "req_method req = ''POST''" and "req_url req = ''/log''"
    and "JSON_parse lib (req_body req) = Some (JObj kvs)"
    and "fs (srv_logFile srv) = Some f" and "writable f"
    and "\<And>x. nl \<notin> set (number_text lib x)"
  shows \<open>\<exists>ln. nl \<notin> set ln
          \<and> ln = stringify (number_text lib)
                  (JObj (map_set ''receivedAt'' (JNum (of_int (date_now lib))) kvs))
          \<and> handleRequest lib srv req fs =
           (\<lparr>status = 200,
             headers = cors_headers @ [(''Content-Type'', ''application/json'')],
             body = ''{"success":true}''\<rparr>,
            fs(srv_logFile srv \<mapsto> f\<lparr>content := content f @ ln @ [nl]\<rparr>))\<close>
  using assms
  by (simp add: handleRequest_def json_response_def success_body writeLog_def
      appendFileSync_def own_props_def stringify_no_nl del: stringify.simps)

theorem valid_object_logged_witness:
  \<open>req_method (post_log demo_body) = ''POST'' \<and> req_url (post_log demo_body) = ''/log''
   \<and> JSON_parse demo_lib (req_body (post_log demo_body)) = Some (JObj demo_entry)
   \<and> demo_files (srv_logFile demo_server) = Some \<lparr>content = [], utf8 = True, writable = True\<rparr>
   \<and> writable \<lparr>content = [], utf8 = True, writable = True\<rparr>
   \<and> (\<forall>x. nl \<notin> set (number_text demo_lib x))
   \<and> (\<exists>ln. nl \<notin> set ln
          \<and> ln = stringify (number_text demo_lib)
                  (JObj (map_set ''receivedAt'' (JNum (of_int (date_now demo_lib))) demo_entry))
          \<and> handleRequest demo_lib demo_server (post_log demo_body) demo_files =
           (\<lparr>status = 200,
             headers = cors_headers @ [(''Content-Type'', ''application/json'')],
             body = ''{"success":true}''\<rparr>,
            demo_files(srv_logFile demo_server \<mapsto>
              \<lparr>content = [], utf8 = True, writable = True\<rparr>
                \<lparr>content := content \<lparr>content = [], utf8 = True, writable = True\<rparr> @ ln @ [nl]\<rparr>)))\<close>
proof -
  have a: "req_method (post_log demo_body) = ''POST''"
    and b: "req_url (post_log demo_body) = ''/log''"
    by (simp_all add: post_log_def)
  have c: "JSON_parse demo_lib (req_body (post_log demo_body)) = Some (JObj demo_entry)"
    by (simp add: post_log_def demo_lib_def demo_parse_def demo_body_def)
  have d: "demo_files (srv_logFile demo_server) = Some \<lparr>content = [], utf8 = True, writable = True\<rparr>"
    by (simp add: demo_files_def demo_server_def)
  have e: "writable \<lparr>content = [], utf8 = True, writable = True\<rparr>" by simp
  have f: "\<And>x. nl \<notin> set (number_text demo_lib x)"
    by (simp add: demo_lib_def integer_text_no_nl)
  have g: "\<forall>x. nl \<notin> set (number_text demo_lib x)" using f by simp
  note r = valid_object_logged [where req = "post_log demo_body" and lib = demo_lib
        and kvs = demo_entry and fs = demo_files and srv = demo_server
        and f = "\<lparr>content = [], utf8 = True, writable = True\<rparr>", OF a b c d e f]
  show ?thesis
    by (intro conjI a b c d e g r)
qed

section \<open>Strings and region patterns: properties\<close>

subsection \<open>Splitting and joining\<close>

lemma split_on_nonempty: "split_on d s \<noteq> []"
  by (induction s) (auto split: list.splits)

lemma join_split: "join [d] (split_on d s) = s"
proof (induction s)
  case Nil
  then show ?case by simp
next
  case (Cons c cs)
  show ?case
  proof (cases "c = d")
    case True
    obtain l ls where "split_on d cs = l # ls"
      using split_on_nonempty[of d cs] by (cases "split_on d cs") auto
    with True Cons show ?thesis by simp
  next
    case False
    obtain l ls where e: "split_on d cs = l # ls"
      using split_on_nonempty[of d cs] by (cases "split_on d cs") auto
    with False Cons show ?thesis by (cases ls) auto
  qed
qed

lemma join_append:
  "xs \<noteq> [] \<Longrightarrow> ys \<noteq> [] \<Longrightarrow> join sep (xs @ ys) = join sep xs @ sep @ join sep ys"
proof (induction sep xs rule: join.induct)
  case (2 sep x)
  then show ?case by (cases ys) auto
qed auto

lemma join_take_drop:
  assumes "0 < k" and "k < length xs"
  shows "join sep xs = join sep (take k xs) @ sep @ join sep (drop k xs)"
proof -
  have "take k xs \<noteq> []" "drop k xs \<noteq> []" using assms by auto
  then have "join sep (take k xs @ drop k xs) = join sep (take k xs) @ sep @ join sep (drop k xs)"
    by (rule join_append)
  then show ?thesis by simp
qed

text \<open>The text written by an insertion before an existing line: the block and a newline
  are put between two parts of the old text, the first of which is empty or ends a line.\<close>

lemma insert_before_line:
  assumes "k < length (split_nl text)"
  shows "\<exists>pre post. text = pre @ post \<and> (pre = [] \<or> last pre = nl)
           \<and> join_nl (splice_in (split_nl text) k (split_nl code)) = pre @ code @ nl # post"
proof (cases "k = 0")
  case True
  have "join_nl (split_nl code @ split_nl text) = join_nl (split_nl code) @ [nl] @ join_nl (split_nl text)"
    by (rule join_append) (simp_all add: split_on_nonempty)
  then have "join_nl (splice_in (split_nl text) k (split_nl code)) = [] @ code @ nl # text"
    using True by (simp add: splice_in_def join_split)
  then show ?thesis by blast
next
  case False
  let ?ls = "split_nl text"
  let ?pre = "join_nl (take k ?ls) @ [nl]"
  let ?post = "join_nl (drop k ?ls)"
  have t: "take k ?ls \<noteq> []" and d: "drop k ?ls \<noteq> []" using False assms by auto
  have "join_nl ?ls = join_nl (take k ?ls) @ [nl] @ join_nl (drop k ?ls)"
    using False assms by (intro join_take_drop) auto
  then have a: "text = ?pre @ ?post" by (simp add: join_split)
  have "join_nl (split_nl code @ drop k ?ls) = join_nl (split_nl code) @ [nl] @ ?post"
    using d by (intro join_append) (simp_all add: split_on_nonempty)
  moreover have "join_nl (take k ?ls @ (split_nl code @ drop k ?ls))
      = join_nl (take k ?ls) @ [nl] @ join_nl (split_nl code @ drop k ?ls)"
    using t by (intro join_append) (simp_all add: split_on_nonempty)
  ultimately have b: "join_nl (splice_in ?ls k (split_nl code)) = ?pre @ code @ nl # ?post"
    by (simp add: splice_in_def join_split)
  have "?pre = [] \<or> last ?pre = nl" by simp
  with a b show ?thesis by blast
qed

lemma insert_after_last_line:
  "join_nl (splice_in (split_nl text) (length (split_nl text)) (split_nl code)) = text @ nl # code"
proof -
  have "join_nl (split_nl text @ split_nl code) = join_nl (split_nl text) @ [nl] @ join_nl (split_nl code)"
    by (rule join_append) (simp_all add: split_on_nonempty)
  then show ?thesis by (simp add: splice_in_def join_split)
qed

subsection \<open>Matching\<close>

lemma after_nl_line: "nl \<notin> set l \<Longrightarrow> after_nl (l @ nl # t) = Some t"
  by (induction l) auto

lemma rest_of_line_line: "nl \<notin> set l \<Longrightarrow> rest_of_line (l @ nl # t) = t"
  by (induction l) auto

lemma rest_of_line_last: "nl \<notin> set l \<Longrightarrow> rest_of_line l = []"
  by (induction l) auto

lemma prefix_longer:
  assumes "prefix E (m @ E @ t)" and "m \<noteq> []" 
  shows "sublist E (m @ butlast E)"
proof (cases "E = []")
  case True then show ?thesis by simp
next
  case False
  have "m @ E @ t = (m @ butlast E) @ (last E # t)" using False by simp
  moreover have "length E \<le> length (m @ butlast E)" using assms(2) False
    by (cases m) auto
  ultimately have "prefix E (m @ butlast E)"
    using assms(1) by (metis prefix_length_prefix prefixI)
  then show ?thesis by (rule prefix_imp_sublist)
qed

lemma after_first_here:
  assumes "E \<noteq> []" and "\<not> sublist E (m @ butlast E)"
  shows "after_first E (m @ E @ t) = Some t"
  using assms(2)
proof (induction m)
  case Nil
  obtain e es where "E = e # es" using assms(1) by (cases E) auto
  then show ?case by simp
next
  case (Cons c m)
  have "\<not> prefix E ((c # m) @ E @ t)" using prefix_longer[of E "c # m" t] Cons.prems by blast
  moreover have "\<not> sublist E (m @ butlast E)" using Cons.prems by (auto simp: sublist_Cons_right)
  ultimately show ?case using Cons.IH by simp
qed

lemma match_at_region:
  assumes "nl \<notin> set ra" and "E \<noteq> []" and "\<not> sublist E (m @ butlast E)" and "nl \<notin> set rb"
  shows "match_at S E (S @ ra @ nl # m @ E @ rb @ nl # t) = Some t"
    and "match_at S E (S @ ra @ nl # m @ E @ rb) = Some []"
proof -
  have a: "after_nl (ra @ nl # m @ E @ rb @ nl # t) = Some (m @ E @ rb @ nl # t)"
    and a': "after_nl (ra @ nl # m @ E @ rb) = Some (m @ E @ rb)"
    using assms(1) by (rule after_nl_line)+
  have b: "after_first E (m @ E @ rb @ nl # t) = Some (rb @ nl # t)"
    and b': "after_first E (m @ E @ rb) = Some rb"
    using assms(2,3) by (rule after_first_here)+
  show "match_at S E (S @ ra @ nl # m @ E @ rb @ nl # t) = Some t"
    using a b assms(4) by (simp add: match_at_def rest_of_line_line)
  show "match_at S E (S @ ra @ nl # m @ E @ rb) = Some []"
    using a' b' assms(4) by (simp add: match_at_def rest_of_line_last)
qed

lemma match_at_prefix: "match_at S E s = Some r \<Longrightarrow> prefix S s"
  by (simp add: match_at_def split: if_splits)

lemma no_match_without_start: "\<not> sublist S s \<Longrightarrow> match_at S E s = None"
  using match_at_prefix[of S E s] prefix_imp_sublist by (cases "match_at S E s") auto

lemma replace_all_no_start: "\<not> sublist S s \<Longrightarrow> replace_all S E s = s"
proof (induction s)
  case Nil
  then show ?case by (subst replace_all.simps) (simp add: no_match_without_start)
next
  case (Cons c cs)
  then have "\<not> sublist S cs" by (auto simp: sublist_Cons_right)
  with Cons show ?case by (subst replace_all.simps) (simp add: no_match_without_start)
qed

lemma count_matches_no_start: "\<not> sublist S s \<Longrightarrow> count_matches S E s = 0"
proof (induction s)
  case Nil
  then show ?case by (subst count_matches.simps) (simp add: no_match_without_start)
next
  case (Cons c cs)
  then have "\<not> sublist S cs" by (auto simp: sublist_Cons_right)
  with Cons show ?case by (subst count_matches.simps) (simp add: no_match_without_start)
qed

lemma no_match_inside:
  assumes "\<not> sublist S (c # u)" and "last (c # u) = nl" and "nl \<notin> set S"
  shows "match_at S E (c # u @ t) = None"
proof -
  have "\<not> prefix S ((c # u) @ t)"
  proof
    assume "prefix S ((c # u) @ t)"
    then consider "prefix S (c # u)" | us where "S = (c # u) @ us"
      using prefix_append[of S "c # u" t] by blast
    then show False
    proof cases
      case 1
      then show False using assms(1) prefix_imp_sublist by blast
    next
      case 2
      then have "last (c # u) \<in> set S" by (metis last_in_set list.distinct(1) set_append UnI1)
      then show False using assms(2,3) by simp
    qed
  qed
  then show ?thesis using match_at_prefix[of S E "c # u @ t"] by (cases "match_at S E (c # u @ t)") auto
qed

lemma replace_all_skip:
  assumes "nl \<notin> set S"
  shows "\<not> sublist S u \<Longrightarrow> u = [] \<or> last u = nl \<Longrightarrow> replace_all S E (u @ t) = u @ replace_all S E t"
proof (induction u)
  case Nil
  then show ?case by simp
next
  case (Cons c u)
  then have l: "last (c # u) = nl" by simp
  have m: "match_at S E (c # u @ t) = None" using Cons.prems(1) l assms by (rule no_match_inside)
  have "\<not> sublist S u" using Cons.prems(1) by (auto simp: sublist_Cons_right)
  moreover have "u = [] \<or> last u = nl" using l by (cases u) auto
  ultimately have "replace_all S E (u @ t) = u @ replace_all S E t" by (rule Cons.IH)
  then show ?case using m by (subst replace_all.simps) simp
qed

lemma count_matches_skip:
  assumes "nl \<notin> set S"
  shows "\<not> sublist S u \<Longrightarrow> u = [] \<or> last u = nl \<Longrightarrow> count_matches S E (u @ t) = count_matches S E t"
proof (induction u)
  case Nil
  then show ?case by simp
next
  case (Cons c u)
  then have l: "last (c # u) = nl" by simp
  have m: "match_at S E (c # u @ t) = None" using Cons.prems(1) l assms by (rule no_match_inside)
  have "\<not> sublist S u" using Cons.prems(1) by (auto simp: sublist_Cons_right)
  moreover have "u = [] \<or> last u = nl" using l by (cases u) auto
  ultimately have "count_matches S E (u @ t) = count_matches S E t" by (rule Cons.IH)
  then show ?case using m by (subst count_matches.simps) simp
qed

lemma starts_lines_append:
  "starts_lines S b (p @ t) \<Longrightarrow> starts_lines S (if p = [] then b else last p = nl) t"
  by (induction p arbitrary: b) (auto split: if_splits)

lemma starts_lines_weaken: "starts_lines S b s \<Longrightarrow> starts_lines S True s"
  by (cases s) auto

lemma starts_lines_occurrence:
  assumes "starts_lines S True (u @ S @ v)" and "S \<noteq> []"
  shows "u = [] \<or> last u = nl"
proof -
  have "starts_lines S (if u = [] then True else last u = nl) (S @ v)"
    using assms(1) by (rule starts_lines_append)
  moreover obtain c cs where "S @ v = c # cs" and "prefix S (c # cs)"
    using assms(2) by (cases S) auto
  ultimately show ?thesis by (auto split: if_splits)
qed

lemma first_occurrence:
  assumes "S \<noteq> []"
  shows "sublist S s \<Longrightarrow> \<exists>u v. s = u @ S @ v \<and> \<not> sublist S u"
proof (induction s)
  case Nil
  then show ?case using assms by simp
next
  case (Cons c cs)
  show ?case
  proof (cases "prefix S (c # cs)")
    case True
    then obtain v where "c # cs = [] @ S @ v" by (auto simp: prefix_def)
    moreover have "\<not> sublist S []" using assms by simp
    ultimately show ?thesis by blast
  next
    case False
    with Cons.prems have "sublist S cs" by (simp add: sublist_Cons_right)
    then obtain u v where e: "cs = u @ S @ v" and n: "\<not> sublist S u" using Cons.IH by blast
    have "\<not> prefix S (c # u)"
    proof
      assume "prefix S (c # u)"
      then have "prefix S ((c # u) @ S @ v)" by (rule prefix_prefix)
      then show False using False e by simp
    qed
    then have "\<not> sublist S (c # u)" using n by (simp add: sublist_Cons_right)
    moreover have "c # cs = (c # u) @ S @ v" using e by simp
    ultimately show ?thesis by blast
  qed
qed

lemma rest_of_line_split:
  "\<exists>p. x = p @ rest_of_line x \<and> (rest_of_line x = [] \<or> (p \<noteq> [] \<and> last p = nl))"
proof (induction x)
  case Nil
  then show ?case by simp
next
  case (Cons c cs)
  show ?case
  proof (cases "c = nl")
    case True
    then have "c # cs = [c] @ rest_of_line (c # cs)" "last [c] = nl" by simp_all
    then show ?thesis by blast
  next
    case False
    from Cons obtain p where p: "cs = p @ rest_of_line cs"
      and q: "rest_of_line cs = [] \<or> (p \<noteq> [] \<and> last p = nl)" by blast
    have "c # cs = (c # p) @ rest_of_line (c # cs)" using p False by simp
    moreover have "rest_of_line (c # cs) = [] \<or> (c # p \<noteq> [] \<and> last (c # p) = nl)"
      using q False by auto
    ultimately show ?thesis by blast
  qed
qed

lemma after_nl_suffix: "after_nl x = Some r \<Longrightarrow> suffix r x"
  by (induction x) (auto split: if_splits simp: suffix_Cons)

lemma after_first_suffix: "after_first E x = Some r \<Longrightarrow> suffix r x"
proof (induction x)
  case Nil
  then show ?case by (simp split: if_splits)
next
  case (Cons c cs)
  show ?case
  proof (cases "prefix E (c # cs)")
    case True
    then have "r = drop (length E) (c # cs)" using Cons.prems by simp
    then show ?thesis by (simp add: suffix_drop)
  next
    case False
    then show ?thesis using Cons by (auto simp: suffix_Cons)
  qed
qed

text \<open>What a match leaves is the rest of the text from the start of a line on, or nothing.\<close>

lemma match_at_split:
  assumes "match_at S E x = Some t"
  shows "\<exists>p. x = p @ t \<and> (t = [] \<or> (p \<noteq> [] \<and> last p = nl))"
proof -
  from assms obtain r1 r2 where
    a: "after_nl (drop (length S) x) = Some r1" and
    b: "after_first E r1 = Some r2" and
    c: "t = rest_of_line r2"
    by (auto simp: match_at_def split: if_splits option.splits)
  have "suffix r1 (drop (length S) x)" using a by (rule after_nl_suffix)
  then have "suffix r1 x" using suffix_drop suffix_order.trans by blast
  moreover have "suffix r2 r1" using b by (rule after_first_suffix)
  ultimately have "suffix r2 x" using suffix_order.trans by blast
  then obtain q where q: "x = q @ r2" by (auto simp: suffix_def)
  obtain p where p: "r2 = p @ t" and l: "t = [] \<or> (p \<noteq> [] \<and> last p = nl)"
    using rest_of_line_split[of r2] c by blast
  have "x = (q @ p) @ t" using q p by simp
  moreover have "t = [] \<or> (q @ p \<noteq> [] \<and> last (q @ p) = nl)" using l by auto
  ultimately show ?thesis by blast
qed

subsection \<open>Texts on which the pattern cannot match\<close>

lemma after_first_None_suffix: "after_first E (a @ b) = None \<Longrightarrow> after_first E b = None"
  by (induction a) (auto split: if_splits)

lemma after_nl_drop:
  "after_nl (drop k x) = Some r' \<Longrightarrow> \<exists>r. after_nl x = Some r \<and> suffix r' r"
proof (induction x arbitrary: k)
  case Nil
  then show ?case by simp
next
  case (Cons c cs)
  show ?case
  proof (cases k)
    case 0
    then show ?thesis using Cons.prems by auto
  next
    case (Suc j)
    then have d: "after_nl (drop j cs) = Some r'" using Cons.prems by simp
    then obtain r where r: "after_nl cs = Some r" and s: "suffix r' r" using Cons.IH by blast
    show ?thesis
    proof (cases "c = nl")
      case True
      have "suffix r' (drop j cs)" using d by (rule after_nl_suffix)
      then have "suffix r' cs" using suffix_drop suffix_order.trans by blast
      then show ?thesis using True by simp
    next
      case False
      then show ?thesis using r s by simp
    qed
  qed
qed

lemma no_end_tail: "no_end E (c # cs) \<Longrightarrow> no_end E cs"
proof (cases "c = nl")
  case True
  assume "no_end E (c # cs)"
  then have n: "after_first E cs = None" using True by (simp add: no_end_def)
  show ?thesis
  proof (cases "after_nl cs")
    case None
    then show ?thesis by (simp add: no_end_def)
  next
    case (Some r)
    then have "suffix r cs" by (rule after_nl_suffix)
    then obtain q where "cs = q @ r" by (auto simp: suffix_def)
    then have "after_first E r = None" using n after_first_None_suffix by blast
    then show ?thesis using Some by (simp add: no_end_def)
  qed
next
  case False
  assume "no_end E (c # cs)"
  then show ?thesis using False by (simp add: no_end_def)
qed

lemma no_end_no_match: "no_end E x \<Longrightarrow> match_at S E x = None"
proof (rule ccontr)
  assume n: "no_end E x" and "match_at S E x \<noteq> None"
  then obtain r1 r2 where
    a: "after_nl (drop (length S) x) = Some r1" and
    b: "after_first E r1 = Some r2"
    by (auto simp: match_at_def split: if_splits option.splits)
  obtain r where r: "after_nl x = Some r" and s: "suffix r1 r" using after_nl_drop[OF a] by blast
  then have "after_first E r = None" using n by (simp add: no_end_def)
  moreover obtain q where "r = q @ r1" using s by (auto simp: suffix_def)
  ultimately have "after_first E r1 = None" using after_first_None_suffix by blast
  then show False using b by simp
qed

lemma replace_all_no_end: "no_end E x \<Longrightarrow> replace_all S E x = x"
proof (induction x)
  case Nil
  then show ?case by (subst replace_all.simps) (simp add: no_end_no_match)
next
  case (Cons c cs)
  then have "replace_all S E cs = cs" using no_end_tail by blast
  then show ?case using Cons.prems by (subst replace_all.simps) (simp add: no_end_no_match)
qed

lemma after_nl_skip: "nl \<notin> set S \<Longrightarrow> after_nl (S @ v) = after_nl v"
  by (induction S) auto

lemma unmatched_start:
  assumes "nl \<notin> set S" and "match_at S E (S @ v) = None"
  shows "no_end E (S @ v)"
  using assms by (auto simp: match_at_def no_end_def after_nl_skip split: option.splits)

subsection \<open>Idempotence\<close>

lemma replace_all_idempotent:
  assumes "S \<noteq> []" and "nl \<notin> set S"
  shows "starts_lines S True s \<Longrightarrow> replace_all S E (replace_all S E s) = replace_all S E s"
proof (induction "length s" arbitrary: s rule: less_induct)
  case less
  show ?case
  proof (cases "sublist S s")
    case False
    then show ?thesis by (simp add: replace_all_no_start)
  next
    case True
    then obtain u v where e: "s = u @ S @ v" and n: "\<not> sublist S u"
      using first_occurrence[OF assms(1)] by blast
    have l: "u = [] \<or> last u = nl"
      using less.prems e assms(1) starts_lines_occurrence by blast
    have skip: "replace_all S E (u @ t) = u @ replace_all S E t" for t
      using assms(2) n l by (rule replace_all_skip)
    show ?thesis
    proof (cases "match_at S E (S @ v)")
      case None
      then have "replace_all S E (S @ v) = S @ v"
        using assms(2) unmatched_start replace_all_no_end by blast
      then have "replace_all S E s = s" using e skip by simp
      then show ?thesis by simp
    next
      case (Some t)
      have r: "replace_all S E (S @ v) = replace_all S E t"
        using Some by (subst replace_all.simps) simp
      obtain p where p: "S @ v = p @ t" and q: "t = [] \<or> (p \<noteq> [] \<and> last p = nl)"
        using match_at_split[OF Some] by blast
      have len: "length t < length s" using match_at_length[OF Some] e by simp
      have "starts_lines S True t"
      proof (cases "t = []")
        case True
        then show ?thesis by simp
      next
        case False
        have "s = (u @ p) @ t" using e p by simp
        then have "starts_lines S (if u @ p = [] then True else last (u @ p) = nl) t"
          using less.prems starts_lines_append by blast
        then show ?thesis using starts_lines_weaken by blast
      qed
      then have "replace_all S E (replace_all S E t) = replace_all S E t"
        using less.hyps len by blast
      then show ?thesis using e skip r by simp
    qed
  qed
qed

section \<open>Region removal: absent regions and idempotence\<close>

lemma literal_region_id: "literal_text (REGION_PREFIX @ ''-'' @ x) = literal_text x"
  by (simp add: literal_text_def REGION_PREFIX_def syntax_chars_def)

lemma removeRegion_literal:
  "literal_text regionId \<Longrightarrow>
   removeRegion rx text regionId lang =
     Inr (replace_all (region_start lang @ regionId) (region_end lang) text)"
  by (simp add: removeRegion_def)

lemma removeRegion_start_marker:
  assumes "literal_text (inst_id i)"
  shows "removeRegion rx text (REGION_PREFIX @ ''-'' @ inst_id i) (language i) =
           Inr (replace_all (start_marker i) (region_end (language i)) text)"
    and "removeRegion rx text (REGION_PREFIX @ CHR ''-'' # inst_id i) (language i) =
           Inr (replace_all (start_marker i) (region_end (language i)) text)"
proof -
  have "literal_text (REGION_PREFIX @ ''-'' @ inst_id i)"
    using assms by (simp only: literal_region_id)
  then show "removeRegion rx text (REGION_PREFIX @ ''-'' @ inst_id i) (language i) =
           Inr (replace_all (start_marker i) (region_end (language i)) text)"
    by (simp add: removeRegion_literal start_marker_def)
  then show "removeRegion rx text (REGION_PREFIX @ CHR ''-'' # inst_id i) (language i) =
           Inr (replace_all (start_marker i) (region_end (language i)) text)"
    by simp
qed

text \<open>Writing the text of a file that is valid UTF-8 changes the text only.\<close>

lemma rewrite_utf8: "utf8 f \<Longrightarrow> f\<lparr>content := c, utf8 := True\<rparr> = f\<lparr>content := c\<rparr>"
  by (cases f) simp

lemma removeInstrument_again:
  assumes "literal_text (inst_id i)" and "nl \<notin> set (inst_id i)"
    and "\<And>f. fs (inst_file i) = Some f \<Longrightarrow> starts_lines (start_marker i) True (content f)"
    and "removeInstrument rx i fs = Inr (b, fs')"
  shows "removeInstrument rx i fs' = Inr (False, fs')"
proof (cases "fs (inst_file i)")
  case None
  then show ?thesis using assms(4) by (simp add: removeInstrument_def existsSync_def)
next
  case (Some f)
  let ?S = "start_marker i"
  let ?E = "region_end (language i)"
  let ?new = "replace_all ?S ?E (content f)"
  note rr = removeRegion_start_marker[OF assms(1), of rx]
  have "?S \<noteq> []" and "nl \<notin> set ?S"
    using assms(2) by (simp_all add: start_marker_def region_start_def REGION_PREFIX_def)
  then have idem: "replace_all ?S ?E ?new = ?new"
    using assms(3)[OF Some] by (rule replace_all_idempotent)
  show ?thesis
  proof (cases "?new = content f")
    case True
    then show ?thesis using assms(4) Some
      by (simp add: removeInstrument_def existsSync_def readFileSync_def Let_def rr)
  next
    case False
    then have "writable f" and "fs' = fs(inst_file i \<mapsto> f\<lparr>content := ?new, utf8 := True\<rparr>)"
      using assms(4) Some
      by (auto simp: removeInstrument_def existsSync_def readFileSync_def writeFileSync_def Let_def
          rr split: if_splits)
    then show ?thesis using idem
      by (simp add: removeInstrument_def existsSync_def readFileSync_def Let_def rr)
  qed
qed

text \<open>
  C3 as stated fails: deleting a region can join what stood before it on the start line
  with what follows the region into a new region. On the text below the first removal
  leaves a complete region with the same identifier, which a second removal deletes.
\<close>

theorem removal_twice_differs:
  "removeRegion no_regex joined_text ''claude-debug-dbg-1a2b3c4d'' javascript =
     Inr ''// #region claude-debug-dbg-1a2b3c4d\<newline>// #endregion''
   \<and> removeRegion no_regex ''// #region claude-debug-dbg-1a2b3c4d\<newline>// #endregion''
         ''claude-debug-dbg-1a2b3c4d'' javascript = Inr []"
  by (simp add: joined_text_def removeRegion_def literal_text_def syntax_chars_def
      region_start_def region_end_def replace_all.simps match_at_def)

text \<open>
  C3, amended. Let the region identifier hold no syntax character of regular
  expressions. Removing a region whose start marker does not occur in the text returns
  the text unchanged and does not throw. If moreover the identifier holds no newline,
  removal is idempotent on every text in which each occurrence of the region's start
  marker begins a line; on such a file a second \<open>removeInstrument\<close> of the same instrument
  does not throw, reports that nothing was removed and leaves the files as they are.
\<close>

theorem removal_absent_and_idempotent:
  "(literal_text regionId \<and> \<not> sublist (region_start lang @ regionId) text \<longrightarrow>
      removeRegion rx text regionId lang = Inr text)
   \<and> (literal_text regionId \<and> nl \<notin> set regionId
      \<and> starts_lines (region_start lang @ regionId) True text \<longrightarrow>
      (\<exists>t. removeRegion rx text regionId lang = Inr t
          \<and> removeRegion rx t regionId lang = Inr t))
   \<and> (literal_text (inst_id i) \<and> nl \<notin> set (inst_id i)
      \<and> (\<forall>f. fs (inst_file i) = Some f \<longrightarrow>
            starts_lines (region_start (language i) @ REGION_PREFIX @ ''-'' @ inst_id i) True
              (content f))
      \<and> removeInstrument rx i fs = Inr (b, fs') \<longrightarrow>
      removeInstrument rx i fs' = Inr (False, fs'))"
proof (intro conjI impI)
  assume "literal_text regionId \<and> \<not> sublist (region_start lang @ regionId) text"
  then show "removeRegion rx text regionId lang = Inr text"
    by (simp add: removeRegion_literal replace_all_no_start)
next
  assume a: "literal_text regionId \<and> nl \<notin> set regionId
      \<and> starts_lines (region_start lang @ regionId) True text"
  let ?S = "region_start lang @ regionId"
  have "?S \<noteq> []" and "nl \<notin> set ?S"
    using a by (simp_all add: region_start_def)
  then have "replace_all ?S (region_end lang) (replace_all ?S (region_end lang) text)
      = replace_all ?S (region_end lang) text"
    using a by (intro replace_all_idempotent) simp_all
  then show "\<exists>t. removeRegion rx text regionId lang = Inr t
          \<and> removeRegion rx t regionId lang = Inr t"
    using a by (simp add: removeRegion_literal)
next
  assume a: "literal_text (inst_id i) \<and> nl \<notin> set (inst_id i)
      \<and> (\<forall>f. fs (inst_file i) = Some f \<longrightarrow>
            starts_lines (region_start (language i) @ REGION_PREFIX @ ''-'' @ inst_id i) True
              (content f))
      \<and> removeInstrument rx i fs = Inr (b, fs')"
  then have "\<And>f. fs (inst_file i) = Some f \<Longrightarrow> starts_lines (start_marker i) True (content f)"
    by (simp add: start_marker_def)
  then show "removeInstrument rx i fs' = Inr (False, fs')"
    using a removeInstrument_again[of i fs rx b fs'] by blast
qed

theorem removal_absent_and_idempotent_witness:
  "literal_text ''claude-debug-dbg-1a2b3c4d''
   \<and> \<not> sublist (region_start javascript @ ''claude-debug-dbg-1a2b3c4d'') ''let x = 1;''
   \<and> removeRegion no_regex ''let x = 1;'' ''claude-debug-dbg-1a2b3c4d'' javascript =
       Inr ''let x = 1;''
   \<and> nl \<notin> set ''claude-debug-dbg-1a2b3c4d''
   \<and> starts_lines (region_start javascript @ ''claude-debug-dbg-1a2b3c4d'') True region_text
   \<and> (\<exists>t. removeRegion no_regex region_text ''claude-debug-dbg-1a2b3c4d'' javascript = Inr t
          \<and> removeRegion no_regex t ''claude-debug-dbg-1a2b3c4d'' javascript = Inr t)
   \<and> literal_text (inst_id demo_instrument)
   \<and> removeInstrument no_regex demo_instrument region_files
        = Inr (True, region_files(''/w/a.js'' \<mapsto>
            \<lparr>content = ''a\<newline>c'', utf8 = True, writable = True\<rparr>))
   \<and> removeInstrument no_regex demo_instrument
        (region_files(''/w/a.js'' \<mapsto> \<lparr>content = ''a\<newline>c'', utf8 = True, writable = True\<rparr>))
        = Inr (False, region_files(''/w/a.js'' \<mapsto>
            \<lparr>content = ''a\<newline>c'', utf8 = True, writable = True\<rparr>))"
proof -
  have l: "literal_text ''claude-debug-dbg-1a2b3c4d''"
    by (simp add: literal_text_def syntax_chars_def)
  have a: "\<not> sublist (region_start javascript @ ''claude-debug-dbg-1a2b3c4d'') ''let x = 1;''"
    by (simp add: region_start_def sublist_code)
  have b: "nl \<notin> set ''claude-debug-dbg-1a2b3c4d''" by simp
  have c: "starts_lines (region_start javascript @ ''claude-debug-dbg-1a2b3c4d'') True region_text"
    by (simp add: region_text_def region_start_def)
  have l': "literal_text (inst_id demo_instrument)"
    by (simp add: demo_instrument_def literal_text_def syntax_chars_def)
  have d: "nl \<notin> set (inst_id demo_instrument)" by (simp add: demo_instrument_def)
  have e: "\<forall>f. region_files (inst_file demo_instrument) = Some f \<longrightarrow>
            starts_lines (region_start (language demo_instrument) @ REGION_PREFIX @ ''-''
              @ inst_id demo_instrument) True (content f)"
    using c by (simp add: region_files_def demo_instrument_def REGION_PREFIX_def)
  have f: "removeInstrument no_regex demo_instrument region_files
        = Inr (True, region_files(''/w/a.js'' \<mapsto>
            \<lparr>content = ''a\<newline>c'', utf8 = True, writable = True\<rparr>))"
    by (simp add: removeInstrument_def existsSync_def readFileSync_def writeFileSync_def
        region_files_def region_text_def demo_instrument_def REGION_PREFIX_def removeRegion_def
        literal_text_def syntax_chars_def
        region_start_def region_end_def replace_all.simps match_at_def)
  note t = removal_absent_and_idempotent
    [of "''claude-debug-dbg-1a2b3c4d''" javascript _ no_regex demo_instrument region_files True
        "region_files(''/w/a.js'' \<mapsto> \<lparr>content = ''a\<newline>c'', utf8 = True, writable = True\<rparr>)"]
  have g: "removeRegion no_regex ''let x = 1;'' ''claude-debug-dbg-1a2b3c4d'' javascript =
       Inr ''let x = 1;''"
    using t[of "''let x = 1;''"] l a by blast
  have h: "\<exists>t. removeRegion no_regex region_text ''claude-debug-dbg-1a2b3c4d'' javascript = Inr t
          \<and> removeRegion no_regex t ''claude-debug-dbg-1a2b3c4d'' javascript = Inr t"
    using t[of region_text] l b c by blast
  have k: "removeInstrument no_regex demo_instrument
        (region_files(''/w/a.js'' \<mapsto> \<lparr>content = ''a\<newline>c'', utf8 = True, writable = True\<rparr>))
        = Inr (False, region_files(''/w/a.js'' \<mapsto>
            \<lparr>content = ''a\<newline>c'', utf8 = True, writable = True\<rparr>))"
    using t[of region_text] l' d e f by blast
  show ?thesis by (intro conjI l a g b c h l' f k)
qed

section \<open>Insertion followed by removal\<close>

lemma join_nl_ends:
  "ms \<noteq> [] \<Longrightarrow> join_nl (a # ms @ [z]) = a @ nl # (join_nl ms @ [nl]) @ z"
proof -
  assume m: "ms \<noteq> []"
  then have "join_nl (ms @ [z]) = join_nl ms @ [nl] @ join_nl [z]" by (intro join_append) simp_all
  moreover obtain x xs where "ms @ [z] = x # xs" using m by (cases ms) auto
  ultimately show ?thesis by (metis append.assoc append_Cons append_Nil join.simps(2) join.simps(3))
qed

lemma show_int_no_hash: "CHR ''#'' \<notin> set (show_int n)"
  by (rule show_int_avoids) simp

lemma js_capture_no_hash: "CHR ''#'' \<notin> set v \<Longrightarrow> CHR ''#'' \<notin> set (js_capture v)"
  by (simp add: js_capture_def)

lemma py_capture_no_hash: "CHR ''#'' \<notin> set v \<Longrightarrow> CHR ''#'' \<notin> set (py_capture v)"
  by (simp add: py_capture_def)

lemma js_block_shape:
  assumes "plain_fields i"
  shows "\<exists>mid. generateJSInstrument pt i =
           (''// #region '' @ REGION_PREFIX @ ''-'' @ inst_id i) @ nl # mid @ ''// #endregion''
             @ '' '' @ REGION_PREFIX @ ''-'' @ inst_id i
         \<and> CHR ''#'' \<notin> set mid \<and> mid \<noteq> [] \<and> last mid = nl"
proof -
  define dataObj where "dataObj =
        (if length (capture i) > 0
         then ''{ '' @ join '', '' (map js_capture (capture i)) @ '' }''
         else ''{}'')"
  define ms where "ms =
        [''fetch('http://localhost:'' @ show_int pt @ ''/log', {'',
         ''  method: 'POST','',
         ''  headers: { 'Content-Type': 'application/json' },'',
         ''  body: JSON.stringify({'',
         ''    id: ''  @ [CHR 0x27] @ inst_id i @ [CHR 0x27] @ '','',
         ''    location: '' @ [CHR 0x27] @ inst_file i @ '':'' @ show_int (line i)
            @ [CHR 0x27] @ '','',
         ''    timestamp: Date.now(),'',
         ''    data: '' @ dataObj,
         ''  })'',
         ''}).catch(() => {});'']"
  have h: "CHR ''#'' \<notin> set (inst_id i)" "CHR ''#'' \<notin> set (inst_file i)"
    "\<And>v. v \<in> set (capture i) \<Longrightarrow> CHR ''#'' \<notin> set v"
    using assms by (auto simp: plain_fields_def)
  have "CHR ''#'' \<notin> set (join '', '' (map js_capture (capture i)))"
    by (rule join_avoids) (auto simp: js_capture_no_hash h)
  then have d: "CHR ''#'' \<notin> set dataObj" by (simp add: dataObj_def)
  have "CHR ''#'' \<notin> set (join_nl ms)"
    by (rule join_avoids) (auto simp: ms_def h d show_int_no_hash)
  then have a: "CHR ''#'' \<notin> set (join_nl ms @ [nl])" by simp
  have "generateJSInstrument pt i =
      join_nl ((''// #region '' @ REGION_PREFIX @ ''-'' @ inst_id i) # ms
         @ [''// #endregion '' @ REGION_PREFIX @ ''-'' @ inst_id i])"
    by (simp add: generateJSInstrument_def ms_def dataObj_def Let_def)
  also have "\<dots> = (''// #region '' @ REGION_PREFIX @ ''-'' @ inst_id i) @ nl # (join_nl ms @ [nl])
       @ ''// #endregion '' @ REGION_PREFIX @ ''-'' @ inst_id i"
    by (rule join_nl_ends) (simp add: ms_def)
  finally have "generateJSInstrument pt i =
           (''// #region '' @ REGION_PREFIX @ ''-'' @ inst_id i) @ nl # (join_nl ms @ [nl]) @ ''// #endregion''
             @ '' '' @ REGION_PREFIX @ ''-'' @ inst_id i" by simp
  with a show ?thesis by (intro exI[of _ "join_nl ms @ [nl]"]) simp
qed


lemma py_block_shape:
  assumes "plain_fields i"
  shows "\<exists>mid. generatePythonInstrument pt i =
           (''# region '' @ REGION_PREFIX @ ''-'' @ inst_id i) @ nl # mid @ ''# endregion''
             @ '' '' @ REGION_PREFIX @ ''-'' @ inst_id i
         \<and> CHR ''#'' \<notin> set mid \<and> mid \<noteq> [] \<and> last mid = nl"
proof -
  define dataDict where "dataDict =
        (if length (capture i) > 0
         then ''{ '' @ join '', '' (map py_capture (capture i)) @ '' }''
         else ''{}'')"
  define ms where "ms =
        [''try:'',
         ''    import urllib.request as __dbg_req, json as __dbg_json'',
         ''    __dbg_req.urlopen(__dbg_req.Request('',
         ''        'http://localhost:'' @ show_int pt @ ''/log','',
         ''        data=__dbg_json.dumps({'',
         ''            'id': '' @ [CHR 0x27] @ inst_id i @ [CHR 0x27] @ '','',
         ''            'location': '' @ [CHR 0x27] @ inst_file i @ '':''
            @ show_int (line i) @ [CHR 0x27] @ '','',
         ''            'timestamp': __import__('time').time(),'',
         ''            'data': '' @ dataDict,
         ''        }).encode(),'',
         ''        headers={'Content-Type': 'application/json'}'',
         ''    ))'',
         ''except: pass'']"
  have h: "CHR ''#'' \<notin> set (inst_id i)" "CHR ''#'' \<notin> set (inst_file i)"
    "\<And>v. v \<in> set (capture i) \<Longrightarrow> CHR ''#'' \<notin> set v"
    using assms by (auto simp: plain_fields_def)
  have "CHR ''#'' \<notin> set (join '', '' (map py_capture (capture i)))"
    by (rule join_avoids) (auto simp: py_capture_no_hash h)
  then have d: "CHR ''#'' \<notin> set dataDict" by (simp add: dataDict_def)
  have "CHR ''#'' \<notin> set (join_nl ms)"
    by (rule join_avoids) (auto simp: ms_def h d show_int_no_hash)
  then have a: "CHR ''#'' \<notin> set (join_nl ms @ [nl])" by simp
  have "generatePythonInstrument pt i =
      join_nl ((''# region '' @ REGION_PREFIX @ ''-'' @ inst_id i) # ms
         @ [''# endregion '' @ REGION_PREFIX @ ''-'' @ inst_id i])"
    by (simp add: generatePythonInstrument_def ms_def dataDict_def Let_def)
  also have "\<dots> = (''# region '' @ REGION_PREFIX @ ''-'' @ inst_id i) @ nl # (join_nl ms @ [nl])
       @ ''# endregion '' @ REGION_PREFIX @ ''-'' @ inst_id i"
    by (rule join_nl_ends) (simp add: ms_def)
  finally have "generatePythonInstrument pt i =
           (''# region '' @ REGION_PREFIX @ ''-'' @ inst_id i) @ nl # (join_nl ms @ [nl]) @ ''# endregion''
             @ '' '' @ REGION_PREFIX @ ''-'' @ inst_id i" by simp
  with a show ?thesis by (intro exI[of _ "join_nl ms @ [nl]"]) simp
qed

text \<open>A generated block: its start line, lines without \<open>#\<close>, its end line.\<close>

lemma block_shape:
  assumes "plain_fields i"
  shows "\<exists>mid. generateInstrumentCode pt i =
           (region_start (language i) @ REGION_PREFIX @ ''-'' @ inst_id i) @ nl # mid
             @ region_end (language i) @ '' '' @ REGION_PREFIX @ ''-'' @ inst_id i
         \<and> CHR ''#'' \<notin> set mid \<and> mid \<noteq> [] \<and> last mid = nl"
proof (cases "language i")
  case javascript
  then show ?thesis using js_block_shape[OF assms, of pt]
    by (simp add: generateInstrumentCode_def region_start_def region_end_def)
next
  case typescript
  then show ?thesis using js_block_shape[OF assms, of pt]
    by (simp add: generateInstrumentCode_def region_start_def region_end_def)
next
  case python
  then show ?thesis using py_block_shape[OF assms, of pt]
    by (simp add: generateInstrumentCode_def region_start_def region_end_def)
qed

lemma region_end_facts:
  "region_end lang \<noteq> []" "nl \<notin> set (region_end lang)" "CHR ''#'' \<in> set (region_end lang)"
  by (simp_all add: region_end_def)

lemma end_not_before:
  assumes "c \<in> set E" and "c \<notin> set mid" and "nl \<notin> set E" and "mid = [] \<or> last mid = nl"
  shows "\<not> sublist E (mid @ butlast E)"
proof
  assume "sublist E (mid @ butlast E)"
  then consider "sublist E mid" | "sublist E (butlast E)"
    | xs1 xs2 where "E = xs1 @ xs2" "suffix xs1 mid" "prefix xs2 (butlast E)"
    by (auto simp: sublist_append)
  then show False
  proof cases
    case 1
    then have "set E \<subseteq> set mid" by (rule set_mono_sublist)
    then show False using assms(1,2) by blast
  next
    case 2
    then have "length E \<le> length (butlast E)" by (rule sublist_length_le)
    then show False using assms(1) by (cases E rule: rev_cases) auto
  next
    case 3
    show False
    proof (cases "xs1 = []")
      case True
      then have "prefix E (butlast E)" using 3 by simp
      then have "length E \<le> length (butlast E)" by (rule prefix_length_le)
      then show False using assms(1) by (cases E rule: rev_cases) auto
    next
      case False
      then have "mid \<noteq> []" using 3(2) by (auto simp: suffix_def)
      then have "last mid = nl" using assms(4) by simp
      moreover have "last xs1 = last mid" using 3(2) False by (auto simp: suffix_def)
      moreover have "last xs1 \<in> set E" using 3(1) False by simp
      ultimately show False using assms(3) by simp
    qed
  qed
qed

lemma replace_all_match: "match_at S E s = Some r \<Longrightarrow> replace_all S E s = replace_all S E r"
  by (subst replace_all.simps) simp

lemma replace_all_Nil: "S \<noteq> [] \<Longrightarrow> replace_all S E [] = []"
  by (subst replace_all.simps) (simp add: match_at_def)

lemma count_matches_match:
  "match_at S E s = Some r \<Longrightarrow> count_matches S E s = Suc (count_matches S E r)"
  by (subst count_matches.simps) simp

lemma count_matches_Nil: "S \<noteq> [] \<Longrightarrow> count_matches S E [] = 0"
  by (subst count_matches.simps) (simp add: match_at_def)

lemma start_marker_facts:
  assumes "plain_fields i"
  shows "nl \<notin> set (start_marker i)" and "start_marker i \<noteq> []"
  using assms by (simp_all add: start_marker_def region_start_def REGION_PREFIX_def plain_fields_def)

text \<open>The pattern of an instrument matches its own block, followed by a newline or by
  the end of the text, and leaves what follows the block.\<close>

lemma match_own_block:
  assumes "plain_fields i"
  shows "match_at (start_marker i) (region_end (language i))
           (generateInstrumentCode pt i @ nl # t) = Some t"
    and "match_at (start_marker i) (region_end (language i))
           (generateInstrumentCode pt i) = Some []"
proof -
  let ?E = "region_end (language i)"
  let ?r = "'' '' @ REGION_PREFIX @ ''-'' @ inst_id i"
  obtain mid where c: "generateInstrumentCode pt i = start_marker i @ nl # mid @ ?E @ ?r"
    and m: "CHR ''#'' \<notin> set mid" "mid \<noteq> []" "last mid = nl"
    using block_shape[OF assms, of pt] unfolding start_marker_def by blast
  have n: "\<not> sublist ?E (mid @ butlast ?E)"
    using region_end_facts(3) m(1) region_end_facts(2) by (rule end_not_before) (simp add: m)
  have r: "nl \<notin> set ?r" using assms by (auto simp: plain_fields_def REGION_PREFIX_def)
  have "match_at (start_marker i) ?E (start_marker i @ [] @ nl # mid @ ?E @ ?r @ nl # t) = Some t"
    by (rule match_at_region(1)[OF _ region_end_facts(1) n r]) simp
  then show "match_at (start_marker i) ?E (generateInstrumentCode pt i @ nl # t) = Some t"
    using c by simp
  have "match_at (start_marker i) ?E (start_marker i @ [] @ nl # mid @ ?E @ ?r) = Some []"
    by (rule match_at_region(2)[OF _ region_end_facts(1) n r]) simp
  then show "match_at (start_marker i) ?E (generateInstrumentCode pt i) = Some []"
    using c by simp
qed

lemma remove_block_inside:
  assumes "plain_fields i"
    and "\<not> sublist (start_marker i) (pre @ post)"
    and "pre = [] \<or> last pre = nl"
    and "literal_text (inst_id i)"
  shows "removeRegion rx (pre @ generateInstrumentCode pt i @ nl # post)
           (REGION_PREFIX @ ''-'' @ inst_id i) (language i) = Inr (pre @ post)"
proof -
  let ?S = "start_marker i"
  let ?E = "region_end (language i)"
  have nl: "nl \<notin> set ?S" using assms(1) by (rule start_marker_facts)
  have a: "\<not> sublist ?S pre" and b: "\<not> sublist ?S post"
    using assms(2) by (auto simp: sublist_append)
  have "replace_all ?S ?E (pre @ generateInstrumentCode pt i @ nl # post)
      = pre @ replace_all ?S ?E (generateInstrumentCode pt i @ nl # post)"
    using nl a assms(3) by (rule replace_all_skip)
  also have "replace_all ?S ?E (generateInstrumentCode pt i @ nl # post) = replace_all ?S ?E post"
    using match_own_block(1)[OF assms(1)] by (rule replace_all_match)
  also have "\<dots> = post" using b by (rule replace_all_no_start)
  finally show ?thesis unfolding removeRegion_start_marker[OF assms(4)] by simp
qed

lemma remove_block_at_end:
  assumes "plain_fields i"
    and "\<not> sublist (start_marker i) text"
    and "literal_text (inst_id i)"
  shows "removeRegion rx (text @ nl # generateInstrumentCode pt i)
           (REGION_PREFIX @ ''-'' @ inst_id i) (language i) = Inr (text @ [nl])"
proof -
  let ?S = "start_marker i"
  let ?E = "region_end (language i)"
  have nl: "nl \<notin> set ?S" and ne: "?S \<noteq> []"
    using assms(1) by (rule start_marker_facts)+
  have a: "\<not> sublist ?S (text @ [nl])"
  proof
    assume "sublist ?S (text @ [nl])"
    then have "suffix ?S (text @ [nl])" using assms(2) by (simp add: sublist_snoc)
    then obtain q where "text @ [nl] = q @ ?S" by (auto simp: suffix_def)
    then have "last ?S = nl" using ne by (metis last_appendR last_snoc)
    then show False using nl ne last_in_set by metis
  qed
  have "replace_all ?S ?E ((text @ [nl]) @ generateInstrumentCode pt i)
      = (text @ [nl]) @ replace_all ?S ?E (generateInstrumentCode pt i)"
    using nl a by (rule replace_all_skip) simp
  also have "replace_all ?S ?E (generateInstrumentCode pt i) = replace_all ?S ?E []"
    using match_own_block(2)[OF assms(1)] by (rule replace_all_match)
  also have "\<dots> = []" using ne by (rule replace_all_Nil)
  finally show ?thesis unfolding removeRegion_start_marker[OF assms(3)] by simp
qed

lemma append_then_remove:
  assumes "fs (inst_file i) = Some f" and "writable f"
    and "line i = int (length (split_nl (content f))) + 1"
    and "plain_fields i"
    and "\<not> sublist (start_marker i) (content f)"
    and "literal_text (inst_id i)"
  shows "add_then_remove rx pt i fs =
           Inr (True, fs(inst_file i \<mapsto> f\<lparr>content := content f @ [nl], utf8 := True\<rparr>))"
proof -
  let ?code = "generateInstrumentCode pt i"
  let ?new = "content f @ nl # ?code"
  have k: "nat (line i - 1) = length (split_nl (content f))" using assms(3) by simp
  have add: "addInstrument pt i fs = Inr (fs(inst_file i \<mapsto> f\<lparr>content := ?new, utf8 := True\<rparr>))"
    using assms(1-3) k
    by (simp add: addInstrument_def existsSync_def readFileSync_def writeFileSync_def Let_def
        insert_after_last_line)
  have rem: "removeRegion rx ?new (REGION_PREFIX @ ''-'' @ inst_id i) (language i)
      = Inr (content f @ [nl])"
    using assms(4,5,6) by (rule remove_block_at_end)
  have "length ?new \<noteq> length (content f @ [nl])"
    using block_shape[OF assms(4), of pt] by auto
  then have ne: "content f @ [nl] \<noteq> ?new" by auto
  have "removeInstrument rx i (fs(inst_file i \<mapsto> f\<lparr>content := ?new, utf8 := True\<rparr>))
       = Inr (True, fs(inst_file i \<mapsto> f\<lparr>content := content f @ [nl], utf8 := True\<rparr>))"
    using assms(1,2) rem ne
    by (simp add: removeInstrument_def existsSync_def readFileSync_def writeFileSync_def Let_def)
  then show ?thesis using add by (simp add: add_then_remove_def)
qed

text \<open>
  Insertion after the last line (line = number of lines + 1) followed by removal: the
  newline that joins the block to the text stays behind.
\<close>

lemma insert_after_last_line_leaves_newline:
  "line (demo_instrument\<lparr>line := 2\<rparr>) = int (length (split_nl ''let x = 1;'')) + 1
   \<and> demo_files ''/w/a.js'' = Some \<lparr>content = ''let x = 1;'', utf8 = True, writable = True\<rparr>
   \<and> add_then_remove no_regex 9876 (demo_instrument\<lparr>line := 2\<rparr>) demo_files =
       Inr (True, demo_files(''/w/a.js'' \<mapsto>
         \<lparr>content = ''let x = 1;\<newline>'', utf8 = True, writable = True\<rparr>))"
proof -
  let ?i = "demo_instrument\<lparr>line := 2\<rparr>"
  let ?f = "\<lparr>content = ''let x = 1;'', utf8 = True, writable = True\<rparr>"
  have a: "demo_files (inst_file ?i) = Some ?f"
    by (simp add: demo_files_def demo_instrument_def)
  have b: "writable ?f" by simp
  have c: "line ?i = int (length (split_nl (content ?f))) + 1" by simp
  have d: "plain_fields ?i" by (simp add: plain_fields_def demo_instrument_def)
  have e: "\<not> sublist (start_marker ?i) (content ?f)"
    by (simp add: start_marker_def demo_instrument_def region_start_def REGION_PREFIX_def
        sublist_code)
  have l: "literal_text (inst_id ?i)"
    by (simp add: demo_instrument_def literal_text_def syntax_chars_def)
  show ?thesis
    using a c append_then_remove [where fs = demo_files and i = ?i and f = ?f and pt = 9876
        and rx = no_regex, OF a b c d e l]
    by (simp add: demo_instrument_def)
qed

text \<open>
  A capture name is copied into the block as it is, and the removal stops at the first
  end marker after the start line. With the capture name \<open>// #endregion\<close> the removal
  ends inside the block, and the rest of the block stays in the file.
\<close>

lemma capture_with_end_marker_leaves_tail:
  "demo_files ''/w/a.js'' = Some \<lparr>content = ''let x = 1;'', utf8 = True, writable = True\<rparr>
   \<and> add_then_remove no_regex 9876 (demo_instrument\<lparr>capture := [''// #endregion'']\<rparr>)
        demo_files =
       Inr (True, demo_files(''/w/a.js'' \<mapsto>
         \<lparr>content = ''  })\<newline>}).catch(() => {});\<newline>// #endregion claude-debug-dbg-1a2b3c4d\<newline>let x = 1;'',
          utf8 = True, writable = True\<rparr>))"
  by (simp add: add_then_remove_def addInstrument_def removeInstrument_def existsSync_def
      readFileSync_def writeFileSync_def demo_instrument_def demo_files_def
      generateInstrumentCode_def generateJSInstrument_def js_capture_def REGION_PREFIX_def
      show_int_def digits.simps digit_char_def splice_in_def Let_def removeRegion_def
      literal_text_def syntax_chars_def
      region_start_def region_end_def replace_all.simps match_at_def)

text \<open>
  C1 as stated fails, on a file of one line: after insertion at line 2 (the number of
  lines plus one) and removal the file has gained a newline, and after insertion at
  line 1 with the capture name \<open>// #endregion\<close> and removal the file holds the tail of
  the block.
\<close>

theorem round_trip_changes_file:
  "demo_files ''/w/a.js'' = Some \<lparr>content = ''let x = 1;'', utf8 = True, writable = True\<rparr>
   \<and> line (demo_instrument\<lparr>line := 2\<rparr>) = int (length (split_nl ''let x = 1;'')) + 1
   \<and> add_then_remove no_regex 9876 (demo_instrument\<lparr>line := 2\<rparr>) demo_files =
       Inr (True, demo_files(''/w/a.js'' \<mapsto>
         \<lparr>content = ''let x = 1;\<newline>'', utf8 = True, writable = True\<rparr>))
   \<and> add_then_remove no_regex 9876 (demo_instrument\<lparr>capture := [''// #endregion'']\<rparr>)
        demo_files =
       Inr (True, demo_files(''/w/a.js'' \<mapsto>
         \<lparr>content = ''  })\<newline>}).catch(() => {});\<newline>// #endregion claude-debug-dbg-1a2b3c4d\<newline>let x = 1;'',
          utf8 = True, writable = True\<rparr>))"
  using insert_after_last_line_leaves_newline capture_with_end_marker_leaves_tail by blast

text \<open>
  Insertion before an existing line followed by removal gives back the text of the file,
  and the file has been written: its bytes are now the UTF-8 encoding of that text. For
  a file that held bytes that are not valid UTF-8 these are other bytes than before.
\<close>

lemma insert_then_remove_rewrites:
  assumes "fs (inst_file i) = Some f" and "writable f"
    and "1 \<le> line i" and "line i \<le> int (length (split_nl (content f)))"
    and "plain_fields i" and "literal_text (inst_id i)"
    and "\<not> sublist (start_marker i) (content f)"
  shows "add_then_remove rx pt i fs = Inr (True, fs(inst_file i \<mapsto> f\<lparr>utf8 := True\<rparr>))"
proof -
  let ?k = "nat (line i - 1)"
  let ?code = "generateInstrumentCode pt i"
  let ?new = "join_nl (splice_in (split_nl (content f)) ?k (split_nl ?code))"
  have k: "?k < length (split_nl (content f))" using assms(3,4) by simp
  then obtain pre post where c: "content f = pre @ post" and l: "pre = [] \<or> last pre = nl"
    and n: "?new = pre @ ?code @ nl # post"
    using insert_before_line[of ?k "content f" ?code] by blast
  have add: "addInstrument pt i fs = Inr (fs(inst_file i \<mapsto> f\<lparr>content := ?new, utf8 := True\<rparr>))"
    using assms(1-4)
    by (simp add: addInstrument_def existsSync_def readFileSync_def writeFileSync_def Let_def)
  have rem: "removeRegion rx ?new (REGION_PREFIX @ ''-'' @ inst_id i) (language i)
      = Inr (content f)"
    using remove_block_inside[OF assms(5) _ l assms(6), of post rx pt] assms(7) c n by simp
  have "length ?new \<noteq> length (content f)" using c n by simp
  then have ne: "content f \<noteq> ?new" by auto
  have same: "f\<lparr>content := content f, utf8 := True\<rparr> = f\<lparr>utf8 := True\<rparr>" by simp
  have "removeInstrument rx i (fs(inst_file i \<mapsto> f\<lparr>content := ?new, utf8 := True\<rparr>))
      = Inr (True, fs(inst_file i \<mapsto> f\<lparr>utf8 := True\<rparr>))"
    using assms(1,2) rem ne
    by (simp add: removeInstrument_def existsSync_def readFileSync_def writeFileSync_def Let_def
        same)
  then show ?thesis using add by (simp add: add_then_remove_def)
qed

lemma round_trip_reencodes:
  assumes "fs (inst_file i) = Some f" and "writable f" and "\<not> utf8 f"
    and "1 \<le> line i" and "line i \<le> int (length (split_nl (content f)))"
    and "plain_fields i" and "literal_text (inst_id i)"
    and "\<not> sublist (start_marker i) (content f)"
  shows "\<exists>fs'. add_then_remove rx pt i fs = Inr (True, fs') \<and> fs' \<noteq> fs
           \<and> map_option content (fs' (inst_file i)) = Some (content f)"
proof -
  let ?fs' = "fs(inst_file i \<mapsto> f\<lparr>utf8 := True\<rparr>)"
  have "add_then_remove rx pt i fs = Inr (True, ?fs')"
    using assms(1,2,4-8) by (rule insert_then_remove_rewrites)
  moreover have "?fs' (inst_file i) \<noteq> fs (inst_file i)"
  proof
    assume "?fs' (inst_file i) = fs (inst_file i)"
    then have "f\<lparr>utf8 := True\<rparr> = f" using assms(1) by simp
    then have "utf8 (f\<lparr>utf8 := True\<rparr>) = utf8 f" by simp
    then show False using assms(3) by simp
  qed
  then have "?fs' \<noteq> fs" by metis
  moreover have "map_option content (?fs' (inst_file i)) = Some (content f)" by simp
  ultimately show ?thesis by blast
qed

text \<open>
  C1, amended. Let the file of an instrument exist, be writable and be valid UTF-8, let
  the line be between 1 and the number of lines of the file, let the identifier be made
  of ASCII characters and hold no syntax character of regular expressions, no \<open>#\<close> and
  no newline, and the file path and the capture names no \<open>#\<close>, and let the file not hold
  the instrument's start marker already. Then \<open>addInstrument\<close> followed by \<open>removeInstrument\<close> of the same instrument
  reports a removal and leaves the file system exactly as it was: the file has the
  bytes that it had.
\<close>

theorem insert_then_remove_restores:
  assumes "fs (inst_file i) = Some f" and "writable f" and "utf8 f"
    and "1 \<le> line i" and "line i \<le> int (length (split_nl (content f)))"
    and "plain_fields i" and "literal_text (inst_id i)"
    and "\<not> sublist (start_marker i) (content f)"
    and "ascii_text (inst_id i)"
  shows "add_then_remove rx pt i fs = Inr (True, fs)"
proof -
  have "add_then_remove rx pt i fs = Inr (True, fs(inst_file i \<mapsto> f\<lparr>utf8 := True\<rparr>))"
    using assms(1,2,4-8) by (rule insert_then_remove_rewrites)
  moreover have "f\<lparr>utf8 := True\<rparr> = f" using assms(3) by (cases f) simp
  ultimately show ?thesis using assms(1) by (simp add: map_upd_triv)
qed

theorem insert_then_remove_restores_witness:
  "demo_files (inst_file demo_instrument) =
     Some \<lparr>content = ''let x = 1;'', utf8 = True, writable = True\<rparr>
   \<and> writable \<lparr>content = ''let x = 1;'', utf8 = True, writable = True\<rparr>
   \<and> utf8 \<lparr>content = ''let x = 1;'', utf8 = True, writable = True\<rparr>
   \<and> 1 \<le> line demo_instrument
   \<and> line demo_instrument
        \<le> int (length (split_nl
              (content \<lparr>content = ''let x = 1;'', utf8 = True, writable = True\<rparr>)))
   \<and> plain_fields demo_instrument
   \<and> literal_text (inst_id demo_instrument)
   \<and> \<not> sublist (start_marker demo_instrument)
          (content \<lparr>content = ''let x = 1;'', utf8 = True, writable = True\<rparr>)
   \<and> ascii_text (inst_id demo_instrument)
   \<and> add_then_remove no_regex 9876 demo_instrument demo_files = Inr (True, demo_files)"
proof -
  let ?f = "\<lparr>content = ''let x = 1;'', utf8 = True, writable = True\<rparr>"
  have a: "demo_files (inst_file demo_instrument) = Some ?f"
    by (simp add: demo_files_def demo_instrument_def)
  have b: "writable ?f" by simp
  have u: "utf8 ?f" by simp
  have c: "1 \<le> line demo_instrument" by (simp add: demo_instrument_def)
  have d: "line demo_instrument \<le> int (length (split_nl (content ?f)))"
    by (simp add: demo_instrument_def)
  have e: "plain_fields demo_instrument" by (simp add: plain_fields_def demo_instrument_def)
  have l: "literal_text (inst_id demo_instrument)"
    by (simp add: demo_instrument_def literal_text_def syntax_chars_def)
  have f: "\<not> sublist (start_marker demo_instrument) (content ?f)"
    by (simp add: start_marker_def demo_instrument_def region_start_def REGION_PREFIX_def
        sublist_code)
  have g: "ascii_text (inst_id demo_instrument)"
    by (simp add: demo_instrument_def ascii_text_def)
  show ?thesis
    by (intro conjI a b u c d e l f g
        insert_then_remove_restores [where fs = demo_files and i = demo_instrument and f = ?f
          and rx = no_regex, OF a b u c d e l f g])
qed

section \<open>Patterns on laid-out files\<close>

lemma hash_align:
  assumes "sublist (p1 @ c # p2) (t1 @ c # t2)" and "c \<notin> set p1" and "c \<notin> set t1"
  shows "(suffix p1 t1 \<and> prefix p2 t2) \<or> sublist (p1 @ c # p2) t2"
proof -
  from assms(1) obtain a b where "t1 @ c # t2 = a @ (p1 @ c # p2) @ b"
    unfolding sublist_def by blast
  then have e: "t1 @ (c # t2) = (a @ p1) @ (c # p2 @ b)" by simp
  consider us where "t1 = (a @ p1) @ us" "us @ c # t2 = c # p2 @ b"
    | us where "t1 @ us = a @ p1" "c # t2 = us @ c # p2 @ b"
    using e unfolding append_eq_append_conv2[of t1 "c # t2" "a @ p1" "c # p2 @ b"] by blast
  then show ?thesis
  proof cases
    case 1
    have "us = []" using 1 assms(3) by (cases us) auto
    then show ?thesis using 1 by (auto simp: suffix_def prefix_def)
  next
    case 2
    show ?thesis
    proof (cases us)
      case Nil
      then show ?thesis using 2 by (auto simp: suffix_def prefix_def)
    next
      case (Cons d us')
      then have d: "d = c" and t2: "t2 = us' @ c # p2 @ b" using 2(2) by auto
      have "(t1 @ [c]) @ us' = a @ p1" using 2(1) Cons d by simp
      then consider vs where "t1 @ [c] = a @ vs" "vs @ us' = p1"
        | vs where "(t1 @ [c]) @ vs = a" "us' = vs @ p1"
        unfolding append_eq_append_conv2[of "t1 @ [c]" us' a p1] by blast
      then have "\<exists>vs. us' = vs @ p1"
      proof cases
        case 1
        have "vs = []"
        proof (rule ccontr)
          assume "vs \<noteq> []"
          then have "last vs = c" using 1(1) by (metis last_appendR last_snoc)
          then have "c \<in> set vs" using \<open>vs \<noteq> []\<close> last_in_set by metis
          then show False using 1(2) assms(2) by auto
        qed
        then show ?thesis using 1(2) by auto
      next
        case 2
        then show ?thesis by blast
      qed
      then obtain vs where "us' = vs @ p1" by blast
      then have "t2 = vs @ (p1 @ c # p2) @ b" using t2 by simp
      then show ?thesis unfolding sublist_def by blast
    qed
  qed
qed


subsection \<open>A pattern against a block\<close>

lemma region_start_split:
  "region_start lang = lead lang @ CHR ''#'' # (if lang = python then '' region '' else ''region '')"
  by (simp add: region_start_def lead_def)

lemma region_end_split:
  "region_end lang = lead lang @ CHR ''#'' # (if lang = python then '' endregion'' else ''endregion'')"
  by (simp add: region_end_def lead_def)

lemma prefix_before_nl:
  assumes "prefix X (a @ nl # r)" and "nl \<notin> set X"
  shows "prefix X a"
proof -
  consider "prefix X a" | us where "X = a @ us" "prefix us (nl # r)"
    using assms(1) unfolding prefix_append by blast
  then show ?thesis
  proof cases
    case 1
    then show ?thesis .
  next
    case 2
    have "us = []" using 2 assms(2) by (cases us) auto
    then show ?thesis using 2 by simp
  qed
qed

lemma pattern_start_facts:
  assumes "nl \<notin> set X"
  shows "nl \<notin> set (pattern_start lang X)" and "pattern_start lang X \<noteq> []"
    and "sublist (REGION_PREFIX @ ''-'') (pattern_start lang X)"
proof -
  show "nl \<notin> set (pattern_start lang X)" and "pattern_start lang X \<noteq> []"
    using assms by (simp_all add: pattern_start_def region_start_def REGION_PREFIX_def)
  have "pattern_start lang X = region_start lang @ (REGION_PREFIX @ ''-'') @ X"
    by (simp add: pattern_start_def)
  then show "sublist (REGION_PREFIX @ ''-'') (pattern_start lang X)"
    unfolding sublist_def by blast
qed

lemma hit_matches:
  assumes "plain_fields i" and "hits lang X i"
  shows "match_at (pattern_start lang X) (region_end lang)
           (generateInstrumentCode pt i @ nl # t) = Some t"
    and "match_at (pattern_start lang X) (region_end lang)
           (generateInstrumentCode pt i) = Some []"
proof -
  let ?E = "region_end lang"
  let ?r = "'' '' @ REGION_PREFIX @ ''-'' @ inst_id i"
  have same: "region_start (language i) = region_start lang" "region_end (language i) = ?E"
    using assms(2) by (auto simp: hits_def region_start_def region_end_def)
  obtain ra where ra: "inst_id i = X @ ra" using assms(2) by (auto simp: hits_def prefix_def)
  have nra: "nl \<notin> set ra" using assms(1) ra by (auto simp: plain_fields_def)
  obtain mid where "generateInstrumentCode pt i =
      (region_start (language i) @ REGION_PREFIX @ ''-'' @ inst_id i) @ nl # mid
        @ region_end (language i) @ ?r"
    and m: "CHR ''#'' \<notin> set mid" "mid \<noteq> []" "last mid = nl"
    using block_shape[OF assms(1), of pt] by blast
  then have c: "generateInstrumentCode pt i = pattern_start lang X @ ra @ nl # mid @ ?E @ ?r"
    using same ra by (simp add: pattern_start_def)
  have n: "\<not> sublist ?E (mid @ butlast ?E)"
    using region_end_facts(3) m(1) region_end_facts(2) by (rule end_not_before) (simp add: m)
  have r: "nl \<notin> set ?r" using assms(1) by (auto simp: plain_fields_def REGION_PREFIX_def)
  have "match_at (pattern_start lang X) ?E
          (pattern_start lang X @ ra @ nl # mid @ ?E @ ?r @ nl # t) = Some t"
    by (rule match_at_region(1)[OF nra region_end_facts(1) n r])
  then show "match_at (pattern_start lang X) ?E (generateInstrumentCode pt i @ nl # t) = Some t"
    using c by simp
  have "match_at (pattern_start lang X) ?E (pattern_start lang X @ ra @ nl # mid @ ?E @ ?r) = Some []"
    by (rule match_at_region(2)[OF nra region_end_facts(1) n r])
  then show "match_at (pattern_start lang X) ?E (generateInstrumentCode pt i) = Some []"
    using c by simp
qed

lemma miss_absent:
  assumes "plain_fields i" and "\<not> hits lang X i" and "CHR ''#'' \<notin> set X" and "nl \<notin> set X"
  shows "\<not> sublist (pattern_start lang X) (generateInstrumentCode pt i @ [nl])"
proof
  let ?li = "language i"
  let ?p1 = "lead lang"
  let ?p2 = "(if lang = python then '' region '' else ''region '') @ REGION_PREFIX @ ''-'' @ X"
  let ?r = "'' '' @ REGION_PREFIX @ ''-'' @ inst_id i"
  let ?te = "(if ?li = python then '' endregion'' else ''endregion'') @ ?r @ [nl]"
  assume s: "sublist (pattern_start lang X) (generateInstrumentCode pt i @ [nl])"
  have h: "CHR ''#'' \<notin> set (inst_id i)" "nl \<notin> set (inst_id i)"
    using assms(1) by (auto simp: plain_fields_def)
  obtain mid where c: "generateInstrumentCode pt i =
      (region_start ?li @ REGION_PREFIX @ ''-'' @ inst_id i) @ nl # mid @ region_end ?li @ ?r"
    and m: "CHR ''#'' \<notin> set mid"
    using block_shape[OF assms(1), of pt] by blast
  let ?t1 = "(if ?li = python then '' region '' else ''region '') @ REGION_PREFIX @ ''-''
      @ inst_id i @ nl # mid @ lead ?li"
  have pat: "pattern_start lang X = ?p1 @ CHR ''#'' # ?p2"
    by (simp add: pattern_start_def region_start_split)
  have code: "generateInstrumentCode pt i @ [nl] = lead ?li @ CHR ''#'' # (?t1 @ CHR ''#'' # ?te)"
    by (simp add: c region_start_split[of ?li] region_end_split[of ?li])
  have np1: "CHR ''#'' \<notin> set ?p1" and nl1: "CHR ''#'' \<notin> set (lead ?li)"
    by (simp_all add: lead_def)
  have nt1: "CHR ''#'' \<notin> set ?t1" using h m by (simp add: REGION_PREFIX_def lead_def)
  have nte: "CHR ''#'' \<notin> set ?te" using h by (simp add: REGION_PREFIX_def)
  have first: "\<not> (suffix ?p1 (lead ?li) \<and> prefix ?p2 (?t1 @ CHR ''#'' # ?te))"
  proof
    assume a: "suffix ?p1 (lead ?li) \<and> prefix ?p2 (?t1 @ CHR ''#'' # ?te)"
    have d: "(lang = python) = (?li = python)"
      using a by (auto simp: lead_def split: if_splits)
    let ?ts = "(if lang = python then '' region '' else ''region '') @ REGION_PREFIX @ ''-''"
    have "prefix (?ts @ X) (?ts @ inst_id i @ nl # mid @ lead ?li @ CHR ''#'' # ?te)"
      using a d by simp
    then have "prefix X (inst_id i @ nl # mid @ lead ?li @ CHR ''#'' # ?te)"
      unfolding same_prefix_prefix .
    then have "prefix X (inst_id i)" using assms(4) by (rule prefix_before_nl)
    then show False using assms(2) d by (simp add: hits_def)
  qed
  have second: "\<not> (suffix ?p1 ?t1 \<and> prefix ?p2 ?te)"
    by (auto simp: REGION_PREFIX_def)
  have third: "\<not> sublist (?p1 @ CHR ''#'' # ?p2) ?te"
  proof
    assume "sublist (?p1 @ CHR ''#'' # ?p2) ?te"
    then have "set (?p1 @ CHR ''#'' # ?p2) \<subseteq> set ?te" by (rule set_mono_sublist)
    then have "CHR ''#'' \<in> set ?te" by auto
    then show False using nte by simp
  qed
  have "sublist (?p1 @ CHR ''#'' # ?p2) (lead ?li @ CHR ''#'' # (?t1 @ CHR ''#'' # ?te))"
    using s pat code by simp
  then have "sublist (?p1 @ CHR ''#'' # ?p2) (?t1 @ CHR ''#'' # ?te)"
    using hash_align[OF _ np1 nl1] first by blast
  then have "sublist (?p1 @ CHR ''#'' # ?p2) ?te"
    using hash_align[OF _ np1 nt1] second by blast
  then show False using third by simp
qed

subsection \<open>A pattern against a layout\<close>

lemma chunk_without_pattern:
  assumes "nl \<notin> set X" and "\<not> sublist (REGION_PREFIX @ ''-'') u"
  shows "\<not> sublist (pattern_start lang X) u" and "\<not> sublist (pattern_start lang X) (u @ [nl])"
proof -
  show a: "\<not> sublist (pattern_start lang X) u"
    using assms(2) pattern_start_facts(3)[OF assms(1)] sublist_order.order.trans by blast
  show "\<not> sublist (pattern_start lang X) (u @ [nl])"
  proof
    assume "sublist (pattern_start lang X) (u @ [nl])"
    then have "suffix (pattern_start lang X) (u @ [nl])" using a by (simp add: sublist_snoc)
    then obtain q where "u @ [nl] = q @ pattern_start lang X" by (auto simp: suffix_def)
    then have "last (pattern_start lang X) = nl"
      using pattern_start_facts(2)[OF assms(1)] by (metis last_appendR last_snoc)
    then show False
      using pattern_start_facts(1,2)[OF assms(1), of lang] last_in_set by metis
  qed
qed

lemma final_piece:
  assumes "CHR ''#'' \<notin> set X" and "nl \<notin> set X" and "ok_item final"
  shows "replace_all (pattern_start lang X) (region_end lang) (item_text pt final)
           = (if hit_item lang X final then [] else item_text pt final)"
    and "count_matches (pattern_start lang X) (region_end lang) (item_text pt final)
           = (if hit_item lang X final then 1 else 0)"
proof -
  let ?S = "pattern_start lang X" and ?E = "region_end lang"
  have ne: "?S \<noteq> []" using assms(2) by (rule pattern_start_facts)
  have "replace_all ?S ?E (item_text pt final) = (if hit_item lang X final then [] else item_text pt final)
      \<and> count_matches ?S ?E (item_text pt final) = (if hit_item lang X final then 1 else 0)"
  proof (cases final)
    case (Plain u)
    then have "\<not> sublist ?S u" using assms(2,3) chunk_without_pattern(1) by simp
    then show ?thesis using Plain by (simp add: replace_all_no_start count_matches_no_start)
  next
    case (Block i)
    then have pf: "plain_fields i" using assms(3) by simp
    show ?thesis
    proof (cases "hits lang X i")
      case True
      have m: "match_at ?S ?E (generateInstrumentCode pt i) = Some []"
        using pf True by (rule hit_matches)
      show ?thesis using Block True ne
        by (simp add: replace_all_match[OF m] count_matches_match[OF m] replace_all_Nil
            count_matches_Nil)
    next
      case False
      have "\<not> sublist ?S (generateInstrumentCode pt i @ [nl])"
        using pf False assms(1,2) by (rule miss_absent)
      then have "\<not> sublist ?S (generateInstrumentCode pt i)"
        by (auto simp: sublist_append)
      then show ?thesis using Block False
        by (simp add: replace_all_no_start count_matches_no_start)
    qed
  qed
  then show "replace_all ?S ?E (item_text pt final)
           = (if hit_item lang X final then [] else item_text pt final)"
    and "count_matches ?S ?E (item_text pt final) = (if hit_item lang X final then 1 else 0)"
    by simp_all
qed

lemma layout_pass:
  assumes "CHR ''#'' \<notin> set X" and "nl \<notin> set X" and "ok_item final"
  shows "\<forall>it \<in> set its. ok_item it \<Longrightarrow>
         replace_all (pattern_start lang X) (region_end lang) (layout pt its final)
           = layout pt (filter (\<lambda>it. \<not> hit_item lang X it) its)
               (if hit_item lang X final then Plain [] else final)
         \<and> count_matches (pattern_start lang X) (region_end lang) (layout pt its final)
           = length (filter (hit_item lang X) (its @ [final]))"
proof (induction its)
  case Nil
  show ?case using final_piece[OF assms, of lang pt] by (simp add: layout_def render_def)
next
  case (Cons it its)
  let ?S = "pattern_start lang X" and ?E = "region_end lang"
  let ?rest = "layout pt its final"
  have nlS: "nl \<notin> set ?S" using assms(2) by (rule pattern_start_facts)
  have ih: "replace_all ?S ?E ?rest
           = layout pt (filter (\<lambda>it. \<not> hit_item lang X it) its)
               (if hit_item lang X final then Plain [] else final)"
    "count_matches ?S ?E ?rest = length (filter (hit_item lang X) (its @ [final]))"
    using Cons by simp_all
  have lt: "layout pt (it # its) final = (item_text pt it @ [nl]) @ ?rest"
    by (simp add: layout_def render_def)
  have skip: "replace_all ?S ?E (layout pt (it # its) final) = (item_text pt it @ [nl]) @ replace_all ?S ?E ?rest
      \<and> count_matches ?S ?E (layout pt (it # its) final) = count_matches ?S ?E ?rest"
    if "\<not> sublist ?S (item_text pt it @ [nl])"
    unfolding lt using nlS that
    by (intro conjI replace_all_skip count_matches_skip) simp_all
  show ?case
  proof (cases it)
    case (Plain u)
    then have "\<not> sublist ?S (item_text pt it @ [nl])"
      using Cons.prems assms(2) chunk_without_pattern(2) by simp
    then show ?thesis using skip ih Plain by (simp add: layout_def render_def)
  next
    case (Block i)
    then have pf: "plain_fields i" using Cons.prems by simp
    show ?thesis
    proof (cases "hits lang X i")
      case True
      have m: "match_at ?S ?E (layout pt (Block i # its) final) = Some ?rest"
        using hit_matches(1)[OF pf True, of pt ?rest] by (simp add: layout_def render_def)
      have "replace_all ?S ?E (layout pt (Block i # its) final) = replace_all ?S ?E ?rest"
        and "count_matches ?S ?E (layout pt (Block i # its) final) = Suc (count_matches ?S ?E ?rest)"
        using m by (rule replace_all_match, rule count_matches_match)
      then show ?thesis using Block True ih by simp
    next
      case False
      have "\<not> sublist ?S (item_text pt it @ [nl])"
        using miss_absent[OF pf False assms(1,2), of pt] Block by simp
      then show ?thesis using skip ih Block False by (simp add: layout_def render_def)
    qed
  qed
qed

section \<open>Wildcard removal\<close>

lemma count_zero_unchanged: "count_matches S E s = 0 \<Longrightarrow> replace_all S E s = s"
proof (induction s)
  case Nil
  then have "match_at S E [] = None"
    by (subst (asm) count_matches.simps) (simp split: option.splits)
  then show ?case by (subst replace_all.simps) simp
next
  case (Cons c cs)
  from Cons.prems have m: "match_at S E (c # cs) = None" and "count_matches S E cs = 0"
    by (subst (asm) count_matches.simps, simp split: option.splits)+
  then have "replace_all S E cs = cs" using Cons.IH by simp
  then show ?case using m by (subst replace_all.simps) simp
qed

lemma remove_patterns_step:
  "remove_patterns ((S, E) # ps) s c =
     remove_patterns ps (replace_all S E s) (c + count_matches S E s)"
  by (simp add: Let_def count_zero_unchanged)

lemma wildcard_patterns:
  "js_pattern = (pattern_start javascript [], region_end javascript)"
  "py_pattern = (pattern_start python [], region_end python)"
  by (simp_all add: js_pattern_def py_pattern_def pattern_start_def region_start_def
      region_end_def)

lemma hits_wildcard: "hits lang [] i = ((lang = python) = (language i = python))"
  by (simp add: hits_def)

lemma count_hit_twice:
  assumes "(la = python) \<noteq> (lb = python)"
  shows "length (filter (hit_item la []) its)
         + length (filter (hit_item lb []) (filter (\<lambda>it. \<not> hit_item la [] it) its))
         = length (filter is_block its)"
proof (induction its)
  case Nil
  then show ?case by simp
next
  case (Cons it its)
  then show ?case using assms by (cases it) (auto simp: hits_wildcard)
qed

lemma filter_hit_twice:
  assumes "(la = python) \<noteq> (lb = python)"
  shows "filter (\<lambda>it. \<not> hit_item lb [] it) (filter (\<lambda>it. \<not> hit_item la [] it) its)
         = filter (\<lambda>it. \<not> is_block it) its"
proof (induction its)
  case Nil
  then show ?case by simp
next
  case (Cons it its)
  then show ?case using assms by (cases it) (auto simp: hits_wildcard)
qed

lemma two_passes:
  assumes "(la = python) \<noteq> (lb = python)"
    and "\<forall>it \<in> set its. ok_item it" and "ok_item final"
  shows "remove_patterns
           [(pattern_start la [], region_end la), (pattern_start lb [], region_end lb)]
           (layout pt its final) 0
         = (layout pt (filter (\<lambda>it. \<not> is_block it) its) (Plain (chunk_text final)),
            length (filter is_block (its @ [final])))"
proof -
  let ?its1 = "filter (\<lambda>it. \<not> hit_item la [] it) its"
  let ?f1 = "if hit_item la [] final then Plain [] else final"
  let ?f2 = "if hit_item lb [] ?f1 then Plain [] else ?f1"
  have x: "CHR ''#'' \<notin> set ([] :: string)" "nl \<notin> set ([] :: string)" by simp_all
  have p1: "replace_all (pattern_start la []) (region_end la) (layout pt its final)
             = layout pt ?its1 ?f1"
    and c1: "count_matches (pattern_start la []) (region_end la) (layout pt its final)
             = length (filter (hit_item la []) (its @ [final]))"
    using layout_pass[OF x assms(3), of its la pt] assms(2) by simp_all
  have ok1: "\<forall>it \<in> set ?its1. ok_item it" using assms(2) by simp
  have okf: "ok_item ?f1" using assms(3) by (simp add: REGION_PREFIX_def)
  have p2: "replace_all (pattern_start lb []) (region_end lb) (layout pt ?its1 ?f1)
             = layout pt (filter (\<lambda>it. \<not> hit_item lb [] it) ?its1) ?f2"
    and c2: "count_matches (pattern_start lb []) (region_end lb) (layout pt ?its1 ?f1)
             = length (filter (hit_item lb []) (?its1 @ [?f1]))"
    using layout_pass[OF x okf, of ?its1 lb pt] ok1 by simp_all
  have f2: "item_text pt ?f2 = chunk_text final"
    using assms(1) by (cases final) (auto simp: hits_wildcard)
  have lt: "layout pt (filter (\<lambda>it. \<not> hit_item lb [] it) ?its1) ?f2
      = layout pt (filter (\<lambda>it. \<not> is_block it) its) (Plain (chunk_text final))"
    using filter_hit_twice[OF assms(1), of its] f2 by (simp add: layout_def)
  have "length (filter (hit_item la []) [final]) + length (filter (hit_item lb []) [?f1])
      = length (filter is_block [final])"
    using assms(1) by (cases final) (auto simp: hits_wildcard)
  then have cnt: "length (filter (hit_item la []) (its @ [final]))
      + length (filter (hit_item lb []) (?its1 @ [?f1]))
      = length (filter is_block (its @ [final]))"
    using count_hit_twice[OF assms(1), of its] by simp
  show ?thesis
    unfolding remove_patterns_step p1 c1 p2 c2 remove_patterns.simps lt
    using cnt by simp
qed

text \<open>
  C2 as stated fails when a region of one dialect holds the start marker of the other.
  The text below has a Python region, the line \<open>keep\<close> and a JS/TS region. The JS/TS
  pattern, tried first, matches from the middle of the Python region to the end of the
  JS/TS region: one match is counted, \<open>keep\<close> is deleted and the Python start marker
  stays. With the Python pattern first, both regions are removed and \<open>keep\<close> stays.
\<close>

theorem wildcard_removal_depends_on_order:
  "remove_patterns [js_pattern, py_pattern] mixed_text 0 =
     (''# region claude-debug-a\<newline>x '', 1)
   \<and> remove_patterns [py_pattern, js_pattern] mixed_text 0 = (''keep\<newline>'', 2)
   \<and> removeAllInstrumentsFromFile ''/w/m.py''
        [''/w/m.py'' \<mapsto> \<lparr>content = mixed_text, utf8 = True, writable = True\<rparr>] =
       Inr (1, [''/w/m.py'' \<mapsto>
         \<lparr>content = ''# region claude-debug-a\<newline>x '', utf8 = True, writable = True\<rparr>])"
  by (simp add: mixed_text_def js_pattern_def py_pattern_def REGION_PREFIX_def Let_def
      removeAllInstrumentsFromFile_def existsSync_def readFileSync_def writeFileSync_def
      replace_all.simps count_matches.simps match_at_def)

text \<open>
  C2, amended. Let a file text be laid out in chunks that do not mention
  \<open>claude-debug-\<close> and in blocks generated for instruments with plain fields, of either
  dialect, every piece on lines of its own. Then the two wildcard patterns, tried in
  either order, delete exactly the blocks, each with its newline, leave the chunks as
  they were, and count the blocks. On a writable file that is valid UTF-8 and holds such
  a text, \<open>removeAllInstrumentsFromFile\<close> returns that count and, when the count is
  positive, writes the remaining text, so that the file holds the bytes of the chunks as
  they were; when there is no block the file system is left as it is.
\<close>

theorem wildcard_removal_on_layout:
  assumes "\<forall>it \<in> set its. ok_item it" and "ok_item final"
  shows "remove_patterns [js_pattern, py_pattern] (layout pt its final) 0 =
           (layout pt (filter (\<lambda>it. \<not> is_block it) its) (Plain (chunk_text final)),
            length (filter is_block (its @ [final])))
       \<and> remove_patterns [py_pattern, js_pattern] (layout pt its final) 0 =
           (layout pt (filter (\<lambda>it. \<not> is_block it) its) (Plain (chunk_text final)),
            length (filter is_block (its @ [final])))
       \<and> (fs p = Some f \<and> writable f \<and> utf8 f \<and> content f = layout pt its final \<longrightarrow>
           removeAllInstrumentsFromFile p fs =
             Inr (length (filter is_block (its @ [final])),
                  if length (filter is_block (its @ [final])) > 0
                  then fs(p \<mapsto> f\<lparr>content :=
                         layout pt (filter (\<lambda>it. \<not> is_block it) its)
                           (Plain (chunk_text final))\<rparr>)
                  else fs))"
proof -
  have a: "remove_patterns [js_pattern, py_pattern] (layout pt its final) 0 =
           (layout pt (filter (\<lambda>it. \<not> is_block it) its) (Plain (chunk_text final)),
            length (filter is_block (its @ [final])))"
    unfolding wildcard_patterns by (rule two_passes[OF _ assms]) simp
  have b: "remove_patterns [py_pattern, js_pattern] (layout pt its final) 0 =
           (layout pt (filter (\<lambda>it. \<not> is_block it) its) (Plain (chunk_text final)),
            length (filter is_block (its @ [final])))"
    unfolding wildcard_patterns by (rule two_passes[OF _ assms]) simp
  show ?thesis
    using a b
    by (simp add: removeAllInstrumentsFromFile_def existsSync_def readFileSync_def
        writeFileSync_def rewrite_utf8)
qed

theorem wildcard_removal_on_layout_witness:
  "demo_items = [Plain ''a'', Block demo_instrument, Plain ''b'', Block py_instrument]
   \<and> ok_item (Plain ''a'') \<and> ok_item (Block demo_instrument) \<and> ok_item (Plain ''b'')
   \<and> ok_item (Block py_instrument) \<and> ok_item (Plain [])
   \<and> remove_patterns [js_pattern, py_pattern] (layout 9876 demo_items (Plain [])) 0 =
       (''a\<newline>b\<newline>'', 2)
   \<and> remove_patterns [py_pattern, js_pattern] (layout 9876 demo_items (Plain [])) 0 =
       (''a\<newline>b\<newline>'', 2)
   \<and> layout_files ''/w/a.js'' =
       Some \<lparr>content = layout 9876 demo_items (Plain []), utf8 = True, writable = True\<rparr>
   \<and> utf8 \<lparr>content = layout 9876 demo_items (Plain []), utf8 = True, writable = True\<rparr>
   \<and> removeAllInstrumentsFromFile ''/w/a.js'' layout_files =
       Inr (2, layout_files(''/w/a.js'' \<mapsto> \<lparr>content = ''a\<newline>b\<newline>'', utf8 = True, writable = True\<rparr>))"
proof -
  have a: "\<forall>it \<in> set demo_items. ok_item it"
    by (simp add: demo_items_def plain_fields_def demo_instrument_def py_instrument_def
        REGION_PREFIX_def sublist_code)
  have b: "ok_item (Plain [])" by (simp add: REGION_PREFIX_def)
  have c: "layout_files ''/w/a.js'' =
       Some \<lparr>content = layout 9876 demo_items (Plain []), utf8 = True, writable = True\<rparr>"
    by (simp add: layout_files_def)
  have r: "layout 9876 (filter (\<lambda>it. \<not> is_block it) demo_items) (Plain (chunk_text (Plain [])))
      = ''a\<newline>b\<newline>''"
    by (simp add: demo_items_def layout_def render_def)
  have n: "length (filter is_block (demo_items @ [Plain []])) = 2"
    by (simp add: demo_items_def)
  have d: "demo_items = [Plain ''a'', Block demo_instrument, Plain ''b'', Block py_instrument]"
    by (simp add: demo_items_def)
  have e: "ok_item (Plain ''a'') \<and> ok_item (Block demo_instrument) \<and> ok_item (Plain ''b'')
      \<and> ok_item (Block py_instrument)"
    using a unfolding d by simp
  note t = wildcard_removal_on_layout [OF a b, of 9876 layout_files "''/w/a.js''"
      "\<lparr>content = layout 9876 demo_items (Plain []), utf8 = True, writable = True\<rparr>", unfolded r n]
  show ?thesis using b c d e t by simp
qed

section \<open>Stopping a session\<close>

lemma ok_for_ok_item: "ok_for R p it \<Longrightarrow> ok_item it"
  by (cases it) auto

lemma start_marker_pattern: "start_marker j = pattern_start (language j) (inst_id j)"
  by (simp add: start_marker_def pattern_start_def)

lemma hits_self: "hits (language j) (inst_id j) j"
  by (simp add: hits_def)

lemma laid_out_other:
  assumes "laid_out pt (j # R) p text" and "p \<noteq> inst_file j"
  shows "laid_out pt R p text"
proof -
  from assms(1) obtain its final where t: "text = layout pt its final"
    and ok: "\<forall>it \<in> set (its @ [final]). ok_for (j # R) p it"
    unfolding laid_out_def by blast
  have "ok_for R p it" if "it \<in> set (its @ [final])" for it
    using ok that assms(2) by (cases it) auto
  then show ?thesis unfolding laid_out_def using t by blast
qed

lemma laid_out_removed:
  assumes "laid_out pt (j # R) (inst_file j) text" and "plain_fields j"
  shows "laid_out pt R (inst_file j)
           (replace_all (start_marker j) (region_end (language j)) text)"
proof -
  let ?p = "inst_file j"
  let ?h = "hit_item (language j) (inst_id j)"
  from assms(1) obtain its final where t: "text = layout pt its final"
    and ok: "\<forall>it \<in> set (its @ [final]). ok_for (j # R) ?p it"
    unfolding laid_out_def by blast
  have x: "CHR ''#'' \<notin> set (inst_id j)" "nl \<notin> set (inst_id j)"
    using assms(2) by (auto simp: plain_fields_def)
  have oki: "\<forall>it \<in> set its. ok_item it" and okf: "ok_item final"
    using ok ok_for_ok_item by auto
  let ?its = "filter (\<lambda>it. \<not> ?h it) its"
  let ?final = "if ?h final then Plain [] else final"
  have "replace_all (pattern_start (language j) (inst_id j)) (region_end (language j))
          (layout pt its final) = layout pt ?its ?final"
    using layout_pass[OF x okf, of its "language j" pt] oki by simp
  then have r: "replace_all (start_marker j) (region_end (language j)) text
      = layout pt ?its ?final"
    unfolding start_marker_pattern t .
  have keep: "ok_for R ?p it" if "ok_for (j # R) ?p it" "\<not> ?h it" for it
    using that hits_self[of j] by (cases it) auto
  have "ok_for R ?p it" if "it \<in> set (?its @ [?final])" for it
  proof (cases "it \<in> set ?its")
    case True
    then show ?thesis using ok keep by auto
  next
    case False
    then have e: "it = ?final" using that by auto
    show ?thesis
    proof (cases "?h final")
      case True
      then show ?thesis using e by (simp add: REGION_PREFIX_def)
    next
      case False
      then show ?thesis using e ok keep by auto
    qed
  qed
  then show ?thesis unfolding laid_out_def r by blast
qed

lemma removeInstrument_step:
  assumes "files_ok pt (j # R) P fs" and "inst_file j \<in> P" and "plain_fields j"
    and "literal_text (inst_id j)"
  shows "\<exists>b fs'. removeInstrument rx j fs = Inr (b, fs') \<and> files_ok pt R P fs'"
proof (cases "fs (inst_file j)")
  case None
  have "files_ok pt R P fs"
    unfolding files_ok_def
  proof (intro ballI allI impI)
    fix p f assume p: "p \<in> P" and f: "fs p = Some f"
    then have "p \<noteq> inst_file j" using None by auto
    moreover have "writable f \<and> laid_out pt (j # R) p (content f)"
      using assms(1) p f unfolding files_ok_def by blast
    ultimately show "writable f \<and> laid_out pt R p (content f)"
      using laid_out_other by blast
  qed
  moreover have "removeInstrument rx j fs = Inr (False, fs)"
    using None by (simp add: removeInstrument_def existsSync_def)
  ultimately show ?thesis by blast
next
  case (Some f)
  let ?new = "replace_all (start_marker j) (region_end (language j)) (content f)"
  have w: "writable f" and lo: "laid_out pt (j # R) (inst_file j) (content f)"
    using assms(1,2) Some unfolding files_ok_def by blast+
  have new: "laid_out pt R (inst_file j) ?new" using lo assms(3) by (rule laid_out_removed)
  let ?fs' = "if ?new \<noteq> content f
              then fs(inst_file j \<mapsto> f\<lparr>content := ?new, utf8 := True\<rparr>) else fs"
  have rm: "removeInstrument rx j fs = Inr (?new \<noteq> content f, ?fs')"
    using Some w
    by (simp add: removeInstrument_def existsSync_def readFileSync_def writeFileSync_def Let_def
        removeRegion_start_marker[OF assms(4)])
  have "files_ok pt R P ?fs'"
    unfolding files_ok_def
  proof (intro ballI allI impI)
    fix p g assume p: "p \<in> P" and g: "?fs' p = Some g"
    show "writable g \<and> laid_out pt R p (content g)"
    proof (cases "p = inst_file j")
      case True
      then have "g = (if ?new \<noteq> content f then f\<lparr>content := ?new, utf8 := True\<rparr> else f)"
        using g Some by (auto split: if_splits)
      then have "writable g" "content g = ?new" using w by (auto split: if_splits)
      then show ?thesis using new True by simp
    next
      case False
      then have "fs p = Some g" using g by (auto split: if_splits)
      then have "writable g \<and> laid_out pt (j # R) p (content g)"
        using assms(1) p unfolding files_ok_def by blast
      then show ?thesis using False laid_out_other by blast
    qed
  qed
  then show ?thesis using rm by blast
qed

lemma remove_each_all:
  "files_ok pt R P fs \<Longrightarrow> inst_file ` set R \<subseteq> P \<Longrightarrow>
   \<forall>j \<in> set R. plain_fields j \<and> literal_text (inst_id j) \<Longrightarrow>
     \<exists>fs'. remove_each rx R fs = (None, fs') \<and> files_ok pt [] P fs'"
proof (induction R arbitrary: fs)
  case Nil
  then show ?case by simp
next
  case (Cons j R)
  obtain b fs1 where a: "removeInstrument rx j fs = Inr (b, fs1)" and ok: "files_ok pt R P fs1"
    using removeInstrument_step[of pt j R P fs rx] Cons.prems by auto
  obtain fs' where "remove_each rx R fs1 = (None, fs')" and "files_ok pt [] P fs'"
    using Cons.IH[OF ok] Cons.prems by auto
  then show ?case using a by simp
qed

lemma sublist_across_nl:
  assumes "sublist xs (u @ nl # r)" and "nl \<notin> set xs"
  shows "sublist xs u \<or> sublist xs r"
proof -
  consider "sublist xs u" | "sublist xs (nl # r)"
    | xs1 xs2 where "xs = xs1 @ xs2" "suffix xs1 u" "prefix xs2 (nl # r)"
    using assms(1) unfolding sublist_append by blast
  then show ?thesis
  proof cases
    case 1
    then show ?thesis by simp
  next
    case 2
    then consider "prefix xs (nl # r)" | "sublist xs r" by (auto simp: sublist_Cons_right)
    then show ?thesis
    proof cases
      case 1
      then have "xs = []" using assms(2) by (cases xs) auto
      then show ?thesis by simp
    next
      case 2
      then show ?thesis by simp
    qed
  next
    case 3
    have "xs2 = []" using 3(1,3) assms(2) by (cases xs2) auto
    then have "suffix xs u" using 3 by simp
    then have "sublist xs u" by (rule suffix_imp_sublist)
    then show ?thesis by simp
  qed
qed

lemma chunks_only:
  assumes "nl \<notin> set xs"
  shows "\<forall>it \<in> set its. ok_for [] p it \<Longrightarrow> ok_for [] p final \<Longrightarrow>
         sublist xs (layout pt its final) \<Longrightarrow>
         (\<exists>it \<in> set (its @ [final]). sublist xs (chunk_text it))"
proof (induction its)
  case Nil
  then show ?case by (cases final) (auto simp: layout_def render_def)
next
  case (Cons it its)
  obtain u where it: "it = Plain u" using Cons.prems(1) by (cases it) auto
  have "layout pt (it # its) final = u @ nl # layout pt its final"
    using it by (simp add: layout_def render_def)
  then consider "sublist xs u" | "sublist xs (layout pt its final)"
    using Cons.prems(3) assms sublist_across_nl by metis
  then show ?case
  proof cases
    case 1
    then show ?thesis using it by auto
  next
    case 2
    then show ?thesis using Cons by auto
  qed
qed

lemma no_registry_no_marker:
  assumes "laid_out pt [] p text"
  shows "\<not> sublist (REGION_PREFIX @ ''-'') text"
proof
  assume s: "sublist (REGION_PREFIX @ ''-'') text"
  from assms obtain its final where t: "text = layout pt its final"
    and ok: "\<forall>it \<in> set (its @ [final]). ok_for [] p it"
    unfolding laid_out_def by blast
  have "nl \<notin> set (REGION_PREFIX @ ''-'')" by (simp add: REGION_PREFIX_def)
  then obtain it where i: "it \<in> set (its @ [final])" and c: "sublist (REGION_PREFIX @ ''-'') (chunk_text it)"
    using chunks_only[of "REGION_PREFIX @ ''-''" its p final pt] ok s t by auto
  have "ok_for [] p it" using ok i by blast
  then show False using c by (cases it) auto
qed

text \<open>
  Stopping while the file of the first instrument is read-only: the removal throws, the
  loop ends, and the call returns the error. The session stays active, the collector
  keeps listening, the registry keeps both instruments and the second file is untouched.
\<close>

lemma stop_aborted_by_failure:
  "call_tool demo_env stop_debug_session locked_state =
     (\<lparr>result_text =
         ''Error: EACCES: permission denied, open '' @ [CHR 0x27] @ ''/w/a.js'' @ [CHR 0x27],
       isError = True\<rparr>,
      locked_state)
   \<and> isActive locked_state
   \<and> map_option listening (server locked_state) = Some True
   \<and> length (getInstruments locked_state) = 2"
  by (simp add: handler_defs locked_state_def demo_session_def demo_server_def
      demo_instrument_def second_instrument_def region_text_def removeInstrument_def
      existsSync_def readFileSync_def writeFileSync_def REGION_PREFIX_def removeRegion_def
      literal_text_def syntax_chars_def demo_env_def
      region_start_def region_end_def replace_all.simps match_at_def Let_def)

text \<open>
  Stopping after an instrument was inserted inside the block of another: the removal of
  the outer instrument ends at the end marker of the inner one, the removal of the inner
  one finds nothing, and the end marker of the outer instrument stays in the file.
\<close>

lemma nested_stop:
  "map (\<lambda>i. (inst_id i, line i)) (getInstruments nested_state) = [(''dbg-3f2a9c1e'', 1), (''dbg-7d8e9f0a'', 3)]
   \<and> fst (call_tool demo_env stop_debug_session nested_state) =
       \<lparr>result_text = ''Debug session stopped. Removed 2 instrument(s) from code.'', isError = False\<rparr>
   \<and> map_option content (files (snd (call_tool demo_env stop_debug_session nested_state)) ''/w/a.js'') =
       Some (''  method: 'POST',\<newline>  headers: { 'Content-Type': 'application/json' },\<newline>  body: JSON.stringify({\<newline>    id: 'dbg-3f2a9c1e',\<newline>    location: '/w/a.js:1',\<newline>    timestamp: Date.now(),\<newline>    data: {}\<newline>  })\<newline>}).catch(() => {});\<newline>// #endregion claude-debug-dbg-3f2a9c1e\<newline>let x = 1;'')"
  by (simp add: nested_state_def handler_defs demo_state_def demo_env_def demo_session_def demo_files_def demo_server_def
      sm_addInstrument_def addInstrument_def removeInstrument_def existsSync_def readFileSync_def writeFileSync_def
      posix_resolve_def detectLanguage_def to_lower_def stopSession_def
      generateInstrumentCode_def generateJSInstrument_def js_capture_def REGION_PREFIX_def
      show_int_def digits.simps digit_char_def splice_in_def Let_def removeRegion_def
      literal_text_def syntax_chars_def
      region_start_def region_end_def replace_all.simps match_at_def)

text \<open>
  C5 as stated fails in both respects: a removal that throws keeps the rest from being
  attempted and the session from being stopped, and after a stop without a throw the
  end marker of an instrument can still stand in its file.
\<close>

theorem stop_is_not_best_effort:
  "call_tool demo_env stop_debug_session locked_state =
     (\<lparr>result_text =
         ''Error: EACCES: permission denied, open '' @ [CHR 0x27] @ ''/w/a.js'' @ [CHR 0x27],
       isError = True\<rparr>,
      locked_state)
   \<and> isActive locked_state
   \<and> map_option listening (server locked_state) = Some True
   \<and> length (getInstruments locked_state) = 2
   \<and> map (\<lambda>i. (inst_id i, line i)) (getInstruments nested_state) =
       [(''dbg-3f2a9c1e'', 1), (''dbg-7d8e9f0a'', 3)]
   \<and> fst (call_tool demo_env stop_debug_session nested_state) =
       \<lparr>result_text = ''Debug session stopped. Removed 2 instrument(s) from code.'',
         isError = False\<rparr>
   \<and> map_option content
        (files (snd (call_tool demo_env stop_debug_session nested_state)) ''/w/a.js'') =
       Some (''  method: 'POST',\<newline>  headers: { 'Content-Type': 'application/json' },\<newline>  body: JSON.stringify({\<newline>    id: 'dbg-3f2a9c1e',\<newline>    location: '/w/a.js:1',\<newline>    timestamp: Date.now(),\<newline>    data: {}\<newline>  })\<newline>}).catch(() => {});\<newline>// #endregion claude-debug-dbg-3f2a9c1e\<newline>let x = 1;'')"
  using stop_aborted_by_failure nested_stop by blast

text \<open>
  C5, amended. Let a session be active, with the instrumenter of its port, let every
  registered instrument have plain fields and an identifier without syntax character of
  regular expressions (as the identifiers that the session manager makes, \<open>dbg-\<close> and
  eight hexadecimal digits), and let every file of a registered
  instrument be missing, or be writable and laid out in chunks that do not mention
  \<open>claude-debug-\<close> and in whole blocks of registered instruments of that file. Then
  stopping attempts the removal of every instrument and none throws; the call succeeds,
  the collector is shut down, the session is discarded and the registry is empty; and
  afterwards no file of an instrument mentions \<open>claude-debug-\<close>, so that no delimiter
  marker is left.
\<close>

theorem stop_removes_all:
  assumes "session st = Some s" and "instrumenter st = Some pt"
    and "\<forall>i \<in> set (getInstruments st). plain_fields i \<and> literal_text (inst_id i)"
    and "files_ok pt (getInstruments st) (inst_file ` set (getInstruments st)) (files st)"
  shows "\<exists>fs'. remove_each (regex ev) (getInstruments st) (files st) = (None, fs')
       \<and> call_tool ev stop_debug_session st =
           (\<lparr>result_text =
               ''Debug session stopped. Removed ''
               @ show_int (int (length (getInstruments st))) @ '' instrument(s) from code.'',
             isError = False\<rparr>,
            st\<lparr>session := None, server := None, instrumenter := None, files := fs'\<rparr>)
       \<and> getInstruments (st\<lparr>session := None, server := None, instrumenter := None,
                             files := fs'\<rparr>) = []
       \<and> (\<forall>i \<in> set (getInstruments st). \<forall>f. fs' (inst_file i) = Some f \<longrightarrow>
             \<not> sublist (REGION_PREFIX @ ''-'') (content f))"
proof -
  let ?R = "getInstruments st"
  obtain fs' where r: "remove_each (regex ev) ?R (files st) = (None, fs')"
    and ok: "files_ok pt [] (inst_file ` set ?R) fs'"
    using remove_each_all[OF assms(4) _ assms(3), of "regex ev"] by blast
  have call: "call_tool ev stop_debug_session st =
           (\<lparr>result_text =
               ''Debug session stopped. Removed ''
               @ show_int (int (length ?R)) @ '' instrument(s) from code.'',
             isError = False\<rparr>,
            st\<lparr>session := None, server := None, instrumenter := None, files := fs'\<rparr>)"
    using assms(1,2) r
    by (simp add: call_tool_def handle_stop_def isActive_def stopSession_def Let_def)
  have clean: "\<not> sublist (REGION_PREFIX @ ''-'') (content f)"
    if "i \<in> set ?R" "fs' (inst_file i) = Some f" for i f
  proof -
    have "laid_out pt [] (inst_file i) (content f)"
      using ok that unfolding files_ok_def by blast
    then show ?thesis by (rule no_registry_no_marker)
  qed
  show ?thesis using r call clean by (auto simp: getInstruments_def)
qed

lemma busy_instruments:
  "getInstruments busy_state = [demo_instrument, second_instrument, third_instrument]"
  by (simp add: getInstruments_def map_values_def busy_state_def)

lemma busy_plain:
  "\<forall>i \<in> set (getInstruments busy_state). plain_fields i \<and> literal_text (inst_id i)"
  by (simp add: busy_instruments plain_fields_def demo_instrument_def second_instrument_def
      third_instrument_def literal_text_def syntax_chars_def)

lemma busy_files_ok:
  "files_ok 9876 (getInstruments busy_state) (inst_file ` set (getInstruments busy_state))
     (files busy_state)"
proof -
  let ?R = "[demo_instrument, second_instrument, third_instrument]"
  have pf: "plain_fields demo_instrument" "plain_fields second_instrument"
    "plain_fields third_instrument"
    using busy_plain by (simp_all add: busy_instruments)
  have fa: "inst_file demo_instrument = ''/w/a.js''" "inst_file second_instrument = ''/w/a.js''"
    "inst_file third_instrument = ''/w/b.py''"
    by (simp_all add: demo_instrument_def second_instrument_def third_instrument_def)
  have oka: "\<forall>it \<in> set ([Plain ''let x = 1;'', Block demo_instrument, Plain ''let y = 2;'',
            Block second_instrument] @ [Plain ''done();'']). ok_for ?R ''/w/a.js'' it"
    apply (simp add: REGION_PREFIX_def sublist_code)
    apply (simp add: plain_fields_def demo_instrument_def second_instrument_def)
    done
  have a: "laid_out 9876 ?R ''/w/a.js''
      (layout 9876 [Plain ''let x = 1;'', Block demo_instrument, Plain ''let y = 2;'',
            Block second_instrument] (Plain ''done();''))"
    unfolding laid_out_def using oka by blast
  have okb: "\<forall>it \<in> set ([Block third_instrument, Plain ''n = 1''] @ [Plain []]).
      ok_for ?R ''/w/b.py'' it"
    apply (simp add: REGION_PREFIX_def sublist_code)
    apply (simp add: plain_fields_def third_instrument_def)
    done
  have b: "laid_out 9876 ?R ''/w/b.py''
      (layout 9876 [Block third_instrument, Plain ''n = 1''] (Plain []))"
    unfolding laid_out_def using okb by blast
  show ?thesis
    unfolding files_ok_def busy_instruments
    using a b by (auto simp: busy_state_def busy_files_def fa split: if_splits)
qed

theorem stop_removes_all_witness:
  "session busy_state = Some (demo_session\<lparr>instruments :=
         [(''dbg-1a2b3c4d'', demo_instrument), (''dbg-9c0d1e2f'', second_instrument),
          (''dbg-5e6f7a8b'', third_instrument)]\<rparr>)
   \<and> instrumenter busy_state = Some 9876
   \<and> getInstruments busy_state = [demo_instrument, second_instrument, third_instrument]
   \<and> plain_fields demo_instrument \<and> literal_text (inst_id demo_instrument)
   \<and> plain_fields second_instrument \<and> literal_text (inst_id second_instrument)
   \<and> plain_fields third_instrument \<and> literal_text (inst_id third_instrument)
   \<and> files_ok 9876 (getInstruments busy_state) (inst_file ` set (getInstruments busy_state))
        (files busy_state)
   \<and> (\<exists>fs'. remove_each (regex demo_env) (getInstruments busy_state) (files busy_state)
           = (None, fs')
       \<and> call_tool demo_env stop_debug_session busy_state =
           (\<lparr>result_text =
               ''Debug session stopped. Removed ''
               @ show_int (int (length (getInstruments busy_state)))
               @ '' instrument(s) from code.'',
             isError = False\<rparr>,
            busy_state\<lparr>session := None, server := None, instrumenter := None, files := fs'\<rparr>)
       \<and> getInstruments (busy_state\<lparr>session := None, server := None, instrumenter := None,
                             files := fs'\<rparr>) = []
       \<and> (\<forall>i \<in> set (getInstruments busy_state). \<forall>f. fs' (inst_file i) = Some f \<longrightarrow>
             \<not> sublist (REGION_PREFIX @ ''-'') (content f)))"
proof -
  have a: "session busy_state = Some (demo_session\<lparr>instruments :=
         [(''dbg-1a2b3c4d'', demo_instrument), (''dbg-9c0d1e2f'', second_instrument),
          (''dbg-5e6f7a8b'', third_instrument)]\<rparr>)"
    by (simp add: busy_state_def)
  have b: "instrumenter busy_state = Some 9876" by (simp add: busy_state_def)
  have c: "plain_fields demo_instrument" "plain_fields second_instrument"
    "plain_fields third_instrument"
    and l: "literal_text (inst_id demo_instrument)" "literal_text (inst_id second_instrument)"
    "literal_text (inst_id third_instrument)"
    using busy_plain by (simp_all add: busy_instruments)
  show ?thesis
    by (intro conjI a b c l busy_instruments busy_files_ok
        stop_removes_all [OF a b busy_plain busy_files_ok, of demo_env])
qed

end
